theory Spec2Isabelle
  imports Main
begin

section \<open>The plan model\<close>

text \<open>
  The encoder \<^verbatim>\<open>encode_POP\<close> of \<^verbatim>\<open>popgen/encoder.py\<close> reads a partial-order plan
  through the attributes \<^verbatim>\<open>F\<close>, \<^verbatim>\<open>A\<close>, \<^verbatim>\<open>init\<close>, \<^verbatim>\<open>goal\<close> and the methods
  \<^verbatim>\<open>transativly_close()\<close> and \<^verbatim>\<open>get_links()\<close>, and every action through
  \<^verbatim>\<open>pres\<close>, \<^verbatim>\<open>adds\<close>, \<^verbatim>\<open>dels\<close> and its printed form.

  A fact is modelled by its printed form. An action object is a record; the field
  \<open>name\<close> is what \<^verbatim>\<open>str(a)\<close> prints. The identity test \<^verbatim>\<open>a is not b\<close> of the source is
  equality of records: the actions of a plan are distinct objects, and two distinct
  objects are two distinct records. The Python sets \<^verbatim>\<open>pres\<close>, \<^verbatim>\<open>adds\<close>, \<^verbatim>\<open>dels\<close> and
  the collections \<^verbatim>\<open>F\<close>, \<^verbatim>\<open>A\<close> are lists in the order in which Python iterates them.
  The field \<open>pop_links\<close> holds the links of the plan, which the source reaches only
  through the two methods.
\<close>

type_synonym fact = string

record action =
  name :: string
  pres :: "fact list"
  adds :: "fact list"
  dels :: "fact list"

record pop =
  pop_F :: "fact list"
  pop_A :: "action list"
  pop_init :: action
  pop_goal :: action
  pop_links :: "(action \<times> action) list"

record cmdargs =
  serial :: bool
  allact :: bool
  deorder :: bool
  output_path :: string

datatype error = KeyError | AssertionError | ValueError | IndexError

text \<open>
  Modelled from the spec: the class of the plan object is not part of
  \<^verbatim>\<open>encoder.py\<close>, which calls its method \<^verbatim>\<open>get_links()\<close> at line 161. The spec
  describes the plan as carrying a set of existing links, pairs of actions;
  \<open>get_links\<close> returns them.
\<close>

definition get_links :: "pop \<Rightarrow> (action \<times> action) list" where
  "get_links p = pop_links p"

text \<open>
  Modelled from the spec: the actions that occur in a link, for the closure below.
\<close>

definition link_nodes :: "(action \<times> action) list \<Rightarrow> action list" where
  "link_nodes ls = remdups (map fst ls @ map snd ls)"

text \<open>
  Modelled from the spec: the method \<^verbatim>\<open>transativly_close()\<close> of the plan object, which
  \<^verbatim>\<open>encoder.py\<close> calls at line 23, is not part of that file. The spec asks for the
  ordering relation of the plan to be transitively closed; the method adds every pair
  of the transitive closure that is not yet a link, and leaves facts, actions, init
  and goal as they are.
\<close>

definition transativly_close :: "pop \<Rightarrow> pop" where
  "transativly_close p =
     p\<lparr>pop_links := pop_links p @
         [(a, b). a \<leftarrow> link_nodes (pop_links p), b \<leftarrow> link_nodes (pop_links p),
                  (a, b) \<in> (set (pop_links p))\<^sup>+ \<and> (a, b) \<notin> set (pop_links p)]\<rparr>"

section \<open>The adders and deleters indices\<close>

text \<open>
  \<^verbatim>\<open>adders\<close> and \<^verbatim>\<open>deleters\<close> are dictionaries from facts to Python sets of actions.
  A set is a duplicate-free list; \<open>set_add\<close> is \<^verbatim>\<open>s.add(a)\<close>. Indexing a dictionary at
  a missing key raises \<^verbatim>\<open>KeyError\<close>.
\<close>

type_synonym index = "fact \<rightharpoonup> action list"

definition set_add :: "'a \<Rightarrow> 'a list \<Rightarrow> 'a list" where
  "set_add a s = (if a \<in> set s then s else s @ [a])"

text \<open>Lines 34 to 36: \<^verbatim>\<open>for f in F: adders[f] = set([])\<close>.\<close>

definition empty_index :: "fact list \<Rightarrow> index" where
  "empty_index fs = fold (\<lambda>f m. m(f \<mapsto> [])) fs Map.empty"

text \<open>Lines 39 and 40 (and 41, 42): \<^verbatim>\<open>for f in a.adds: adders[f].add(a)\<close>.\<close>

fun add_to_index :: "action \<Rightarrow> fact list \<Rightarrow> index \<Rightarrow> error + index" where
  "add_to_index a [] idx = Inr idx"
| "add_to_index a (f # fs) idx =
     (case idx f of
        None \<Rightarrow> Inl KeyError
      | Some s \<Rightarrow> add_to_index a fs (idx(f \<mapsto> set_add a s)))"

text \<open>Lines 38 to 42: the loop over \<^verbatim>\<open>A\<close>.\<close>

fun index_actions :: "action list \<Rightarrow> index \<times> index \<Rightarrow> error + index \<times> index" where
  "index_actions [] (adders, deleters) = Inr (adders, deleters)"
| "index_actions (a # as) (adders, deleters) =
     (case add_to_index a (adds a) adders of
        Inl e \<Rightarrow> Inl e
      | Inr adders' \<Rightarrow>
          (case add_to_index a (dels a) deleters of
             Inl e \<Rightarrow> Inl e
           | Inr deleters' \<Rightarrow> index_actions as (adders', deleters')))"

definition build_indices :: "pop \<Rightarrow> error + index \<times> index" where
  "build_indices p = index_actions (pop_A p) (empty_index (pop_F p), empty_index (pop_F p))"

text \<open>The facts that the loop of lines 38 to 42 looks up are all keys of the indices.\<close>

definition effects_in_F :: "pop \<Rightarrow> bool" where
  "effects_in_F p =
     list_all (\<lambda>a. list_all (\<lambda>f. f \<in> set (pop_F p)) (adds a @ dels a)) (pop_A p)"

text \<open>
  \<open>at idx f\<close> is \<^verbatim>\<open>idx[f]\<close> at a key that is present. Line 94 is the first to index
  \<^verbatim>\<open>adders\<close> at the preconditions; \<open>pres_indexed\<close> is its check, and the later lines
  134, 139 and 145 index \<^verbatim>\<open>adders\<close> and \<^verbatim>\<open>deleters\<close>, which have the same keys, at
  the same facts.
\<close>

definition at :: "index \<Rightarrow> fact \<Rightarrow> action list" where
  "at idx f = (case idx f of None \<Rightarrow> [] | Some s \<Rightarrow> s)"

definition pres_indexed :: "index \<Rightarrow> action list \<Rightarrow> bool" where
  "pres_indexed idx as = list_all (\<lambda>a2. list_all (\<lambda>p. idx p \<noteq> None) (pres a2)) as"

section \<open>Propositions and formulas\<close>

text \<open>
  The three proposition classes of lines 46 to 90. Their equality is equality of
  the hash of the printed form (of the action, for \<^verbatim>\<open>Action\<close>), that is of the fields:
  distinct actions and facts print differently. A clause is a formula built with the
  operators of the formula library: \<^verbatim>\<open>~\<close>, \<^verbatim>\<open>&\<close>, \<^verbatim>\<open>|\<close>, \<^verbatim>\<open>>>\<close> and the n-ary
  \<^verbatim>\<open>Or([...])\<close>, \<^verbatim>\<open>And([...])\<close>.
\<close>

datatype propn =
    Action action
  | Order action action
  | Support action fact action

datatype formula =
    Atom propn
  | Neg formula
  | Conj formula formula
  | Disj formula formula
  | Impl formula formula
  | Or "formula list"
  | And "formula list"

fun holds :: "(propn \<Rightarrow> bool) \<Rightarrow> formula \<Rightarrow> bool" where
  "holds v (Atom x) = v x"
| "holds v (Neg f) = (\<not> holds v f)"
| "holds v (Conj f g) = (holds v f \<and> holds v g)"
| "holds v (Disj f g) = (holds v f \<or> holds v g)"
| "holds v (Impl f g) = (holds v f \<longrightarrow> holds v g)"
| "holds v (Or fs) = list_ex (holds v) fs"
| "holds v (And fs) = list_all (holds v) fs"

text \<open>Lines 92 to 94: the three lists of propositions.\<close>

definition actions :: "action list \<Rightarrow> propn list" where
  "actions as = [Action a. a \<leftarrow> as]"

definition orders :: "action list \<Rightarrow> propn list" where
  "orders as = [Order a1 a2. a1 \<leftarrow> as, a2 \<leftarrow> as]"

definition supports :: "index \<Rightarrow> action list \<Rightarrow> propn list" where
  "supports adders as = [Support a1 p a2. a2 \<leftarrow> as, p \<leftarrow> pres a2, a1 \<leftarrow> at adders p]"

section \<open>The constraint generator\<close>

text \<open>Line 107: \<^verbatim>\<open>clauses.extend([~Order(a, a) for a in A])\<close>.\<close>

definition irreflexive :: "action list \<Rightarrow> formula list" where
  "irreflexive as = [Neg (Atom (Order a a)). a \<leftarrow> as]"

text \<open>Lines 110 to 113.\<close>

definition transitive :: "action list \<Rightarrow> formula list" where
  "transitive as =
     [Impl (Conj (Atom (Order a1 a2)) (Atom (Order a2 a3))) (Atom (Order a1 a3)).
        a1 \<leftarrow> as, a2 \<leftarrow> as, a3 \<leftarrow> as]"

text \<open>Lines 116 to 118.\<close>

definition order_needs_actions :: "action list \<Rightarrow> formula list" where
  "order_needs_actions as =
     [Impl (Atom (Order a1 a2)) (Conj (Atom (Action a1)) (Atom (Action a2))).
        a1 \<leftarrow> as, a2 \<leftarrow> as]"

text \<open>Lines 121 to 125.\<close>

definition bracket :: "action \<Rightarrow> action \<Rightarrow> action \<Rightarrow> formula list" where
  "bracket i g a =
     (if a \<noteq> i then [Impl (Atom (Action a)) (Atom (Order i a))] else []) @
     (if a \<noteq> g then [Impl (Atom (Action a)) (Atom (Order a g))] else [])"

definition bracketing :: "action \<Rightarrow> action \<Rightarrow> action list \<Rightarrow> formula list" where
  "bracketing i g as = concat (map (bracket i g) as)"

text \<open>Lines 128 and 129.\<close>

definition endpoints :: "action \<Rightarrow> action \<Rightarrow> formula list" where
  "endpoints i g = [Atom (Action i), Atom (Action g)]"

text \<open>Lines 132 to 134.\<close>

definition others :: "index \<Rightarrow> fact \<Rightarrow> action \<Rightarrow> action list" where
  "others adders p a2 = [x. x \<leftarrow> at adders p, x \<noteq> a2]"

definition precondition :: "index \<Rightarrow> action \<Rightarrow> fact \<Rightarrow> formula" where
  "precondition adders a2 p =
     Impl (Atom (Action a2)) (Or [Atom (Support a1 p a2). a1 \<leftarrow> others adders p a2])"

definition preconditions :: "index \<Rightarrow> action list \<Rightarrow> formula list" where
  "preconditions adders as = [precondition adders a2 p. a2 \<leftarrow> as, p \<leftarrow> pres a2]"

text \<open>Lines 137 to 147.\<close>

definition threat :: "action \<Rightarrow> fact \<Rightarrow> action \<Rightarrow> action \<Rightarrow> formula" where
  "threat a1 p a2 ad =
     Impl (Atom (Support a1 p a2))
          (Disj (Disj (Neg (Atom (Action ad))) (Atom (Order ad a1))) (Atom (Order a2 ad)))"

definition support_clauses :: "index \<Rightarrow> action \<Rightarrow> fact \<Rightarrow> action \<Rightarrow> formula list" where
  "support_clauses deleters a2 p a1 =
     Impl (Atom (Support a1 p a2)) (Atom (Order a1 a2)) #
     [threat a1 p a2 ad. ad \<leftarrow> at deleters p, ad \<notin> set [a1, a2]]"

definition unthreatened :: "index \<Rightarrow> index \<Rightarrow> action list \<Rightarrow> formula list" where
  "unthreatened adders deleters as =
     concat [support_clauses deleters a2 p a1.
               a2 \<leftarrow> as, p \<leftarrow> pres a2, a1 \<leftarrow> others adders p a2]"

text \<open>Lines 150 to 154, 156 to 158 and 160 to 162: the optional clauses.\<close>

definition serial_clauses :: "action list \<Rightarrow> formula list" where
  "serial_clauses as =
     [Impl (Conj (Atom (Action a1)) (Atom (Action a2)))
           (Disj (Atom (Order a1 a2)) (Atom (Order a2 a1))).
        a1 \<leftarrow> as, a2 \<leftarrow> as, a1 \<noteq> a2]"

definition allact_clauses :: "action list \<Rightarrow> formula list" where
  "allact_clauses as = [Atom (Action a). a \<leftarrow> as]"

definition deorder_clauses :: "pop \<Rightarrow> formula list" where
  "deorder_clauses p = [Neg (Atom (Order aj ai)). (ai, aj) \<leftarrow> get_links p]"

text \<open>Lines 104 to 162: the list \<^verbatim>\<open>clauses\<close>, for a closed plan and its indices.\<close>

definition base_clauses :: "pop \<Rightarrow> index \<Rightarrow> index \<Rightarrow> formula list" where
  "base_clauses p adders deleters =
     irreflexive (pop_A p) @ transitive (pop_A p) @ order_needs_actions (pop_A p) @
     bracketing (pop_init p) (pop_goal p) (pop_A p) @
     endpoints (pop_init p) (pop_goal p) @
     preconditions adders (pop_A p) @
     unthreatened adders deleters (pop_A p)"

definition clauses :: "pop \<Rightarrow> cmdargs \<Rightarrow> index \<Rightarrow> index \<Rightarrow> formula list" where
  "clauses p args adders deleters =
     base_clauses p adders deleters @
     (if serial args then serial_clauses (pop_A p) else []) @
     (if allact args then allact_clauses (pop_A p) else []) @
     (if deorder args then deorder_clauses p else [])"

text \<open>
  Lines 23 to 162 as one function: the plan is closed first, then the indices are
  built (\<^verbatim>\<open>KeyError\<close> at a fact outside \<^verbatim>\<open>F\<close>), then line 94 indexes \<^verbatim>\<open>adders\<close> at
  every precondition (\<^verbatim>\<open>KeyError\<close> again), then the clauses are collected. The
  result is the plan as the call leaves it, and the indices and clauses or the error.
\<close>

definition generate :: "pop \<Rightarrow> cmdargs \<Rightarrow> pop \<times> (error + index \<times> index \<times> formula list)" where
  "generate p0 args =
     (let p = transativly_close p0 in
      (p, case build_indices p of
            Inl e \<Rightarrow> Inl e
          | Inr (adders, deleters) \<Rightarrow>
              if pres_indexed adders (pop_A p)
              then Inr (adders, deleters, clauses p args adders deleters)
              else Inl KeyError))"

section \<open>Strings\<close>

text \<open>
  The string operations that lines 168 to 196 use: formatting an integer in an
  f-string, \<^verbatim>\<open>int(s)\<close>, \<^verbatim>\<open>s.strip()\<close>, \<^verbatim>\<open>s.split('\n')\<close>, \<^verbatim>\<open>s.split()\<close>,
  \<^verbatim>\<open>sub in s\<close> and \<^verbatim>\<open>'\n'.join(ls)\<close>. A character is one of the 256 values of \<open>char\<close>.
\<close>

definition newline :: char where
  "newline = CHR 0x0A"

definition digits :: string where
  "digits = ''0123456789''"

function str_nat :: "nat \<Rightarrow> string" where
  "str_nat n = (if n < 10 then [digits ! n] else str_nat (n div 10) @ [digits ! (n mod 10)])"
  by pat_completeness auto
termination
  by (relation "measure id") auto

declare str_nat.simps [simp del]

definition str_int :: "int \<Rightarrow> string" where
  "str_int i = (if i < 0 then CHR ''-'' # str_nat (nat (- i)) else str_nat (nat i))"

definition digit_of :: "char \<Rightarrow> nat option" where
  "digit_of c = map_of (zip digits [0..<10]) c"

text \<open>
  \<^verbatim>\<open>int(s)\<close> on a string without surrounding blanks: an optional sign, then decimal
  digits, single underscores allowed between two digits; anything else raises
  \<^verbatim>\<open>ValueError\<close> (\<open>None\<close>). \<open>digits_val acc prev s\<close> reads the digits after the sign;
  \<open>prev\<close> says that the previous character was a digit.
\<close>

fun digits_val :: "nat \<Rightarrow> bool \<Rightarrow> string \<Rightarrow> nat option" where
  "digits_val acc prev [] = (if prev then Some acc else None)"
| "digits_val acc prev (c # cs) =
     (if c = CHR ''_'' then (if prev then digits_val acc False cs else None)
      else case digit_of c of
             None \<Rightarrow> None
           | Some d \<Rightarrow> digits_val (10 * acc + d) True cs)"

definition py_int :: "string \<Rightarrow> int option" where
  "py_int s =
     (case s of
        [] \<Rightarrow> None
      | c # cs \<Rightarrow>
          if c = CHR ''-'' then map_option (\<lambda>n. - int n) (digits_val 0 False cs)
          else if c = CHR ''+'' then map_option int (digits_val 0 False cs)
          else map_option int (digits_val 0 False s))"

definition is_space :: "char \<Rightarrow> bool" where
  "is_space c = ((of_char c :: nat) \<in> set [9, 10, 11, 12, 13, 28, 29, 30, 31, 32, 133, 160])"

definition py_strip :: "string \<Rightarrow> string" where
  "py_strip s = rev (dropWhile is_space (rev (dropWhile is_space s)))"

fun split_at :: "(char \<Rightarrow> bool) \<Rightarrow> string \<Rightarrow> string list" where
  "split_at sep [] = [[]]"
| "split_at sep (c # cs) =
     (if sep c then [] # split_at sep cs
      else case split_at sep cs of
             [] \<Rightarrow> [[c]]
           | w # ws \<Rightarrow> (c # w) # ws)"

definition split_lines :: "string \<Rightarrow> string list" where
  "split_lines s = split_at (\<lambda>c. c = newline) s"

definition py_split :: "string \<Rightarrow> string list" where
  "py_split s = filter (\<lambda>w. w \<noteq> []) (split_at is_space s)"

fun contains :: "string \<Rightarrow> string \<Rightarrow> bool" where
  "contains sub [] = (sub = [])"
| "contains sub (c # cs) = (take (length sub) (c # cs) = sub \<or> contains sub cs)"

fun join_lines :: "string list \<Rightarrow> string" where
  "join_lines [] = []"
| "join_lines [l] = l"
| "join_lines (l # ls) = l @ newline # join_lines ls"

section \<open>Printed forms\<close>

text \<open>
  \<open>propn_str\<close> is \<^verbatim>\<open>__str__\<close> of the three proposition classes (lines 57, 74 and
  89), \<open>propn_repr\<close> is their \<^verbatim>\<open>__repr__\<close> (lines 54, 71 and 86).
\<close>

fun propn_str :: "propn \<Rightarrow> string" where
  "propn_str (Action a) = name a @ '' in plan''"
| "propn_str (Order a1 a2) = name a1 @ '' -> '' @ name a2"
| "propn_str (Support a1 p a2) = name a1 @ '' supports '' @ p @ '' for '' @ name a2"

fun propn_repr :: "propn \<Rightarrow> string" where
  "propn_repr (Action a) = ''Action('' @ name a @ '')''"
| "propn_repr (Order a1 a2) = ''Order('' @ name a1 @ '', '' @ name a2 @ '')''"
| "propn_repr (Support a1 p a2) =
     ''Support('' @ name a1 @ '', '' @ p @ '', '' @ name a2 @ '')''"

section \<open>The formula engine\<close>

text \<open>
  The libraries \<^verbatim>\<open>bauhaus\<close> and \<^verbatim>\<open>nnf\<close> are not part of the repository. What
  \<^verbatim>\<open>encode_POP\<close> takes from them is a parameter of the model:
  \<^item> \<open>to_CNF\<close> is \<^verbatim>\<open>f.compile().simplify().to_CNF()\<close>: a list of clauses, each a list
    of literals over variables that are propositions or auxiliary names (an
    auxiliary name is given by its printed form);
  \<^item> \<open>vars\<close> is \<^verbatim>\<open>cnf.vars()\<close>, in the order in which Python iterates the set;
  \<^item> \<open>dumps\<close> is \<^verbatim>\<open>dimacs.dumps(cnf, mode='cnf', var_labels=...)\<close>.
  The three are taken to return.
\<close>

datatype cvar = PropVar propn | AuxVar string

type_synonym literal = "cvar \<times> bool"

type_synonym cnf = "literal list list"

record engine =
  to_CNF :: "formula \<Rightarrow> cnf"
  vars :: "cnf \<Rightarrow> cvar list"
  dumps :: "cnf \<Rightarrow> (cvar \<rightharpoonup> nat) \<Rightarrow> string"

fun cvar_str :: "cvar \<Rightarrow> string" where
  "cvar_str (PropVar x) = propn_str x"
| "cvar_str (AuxVar s) = s"

section \<open>Weights and output\<close>

text \<open>Lines 166 and 167: the two label dictionaries.\<close>

definition var_labels :: "cvar list \<Rightarrow> (nat \<times> cvar) list" where
  "var_labels vs = enumerate 1 vs"

definition var_labels_inverse :: "(nat \<times> cvar) list \<Rightarrow> (cvar \<rightharpoonup> nat)" where
  "var_labels_inverse labels = fold (\<lambda>(k, v) m. m(v \<mapsto> k)) labels Map.empty"

text \<open>Lines 170 to 172.\<close>

definition order_cost :: int where
  "order_cost = 1"

definition action_cost :: "action list \<Rightarrow> int" where
  "action_cost as = int (length (orders as)) + 1"

definition top_cost :: "action list \<Rightarrow> int" where
  "top_cost as =
     (int (length (orders as)) * order_cost) + (int (length (actions as)) * action_cost as) + 1"

text \<open>Line 178, for the tokens \<^verbatim>\<open>nv\<close> and \<^verbatim>\<open>int(nc)\<close> of the header.\<close>

definition wcnf_header :: "string \<Rightarrow> int \<Rightarrow> action list \<Rightarrow> string" where
  "wcnf_header nv nc as =
     ''p wcnf '' @ nv @ '' '' @
     str_int (nc + int (length (actions as)) + int (length (orders as))) @ '' '' @
     str_int (top_cost as)"

text \<open>Lines 180 to 182.\<close>

definition weigh :: "int \<Rightarrow> string \<Rightarrow> string" where
  "weigh w l = (if l \<noteq> [] then str_int w @ '' '' @ l else l)"

text \<open>Lines 184 to 186 and 188 to 190.\<close>

definition soft_clause :: "int \<Rightarrow> nat \<Rightarrow> string" where
  "soft_clause cost v = str_int cost @ '' -'' @ str_nat v @ '' 0''"

fun soft_clauses :: "int \<Rightarrow> (cvar \<rightharpoonup> nat) \<Rightarrow> propn list \<Rightarrow> error + string list" where
  "soft_clauses cost linv [] = Inr []"
| "soft_clauses cost linv (x # xs) =
     (case linv (PropVar x) of
        None \<Rightarrow> Inl KeyError
      | Some v \<Rightarrow>
          (case soft_clauses cost linv xs of
             Inl e \<Rightarrow> Inl e
           | Inr ls \<Rightarrow> Inr (soft_clause cost v # ls)))"

text \<open>The weights of the soft clauses of lines 184 to 190, in the order of the file.\<close>

definition soft_costs :: "action list \<Rightarrow> int list" where
  "soft_costs as = map (\<lambda>x. action_cost as) (actions as) @ map (\<lambda>x. order_cost) (orders as)"

text \<open>
  \<^verbatim>\<open>json.dumps(d, indent=4)\<close> for a dictionary from integers to strings, with the
  default \<^verbatim>\<open>ensure_ascii\<close>: quote and backslash are escaped, the five control
  characters with a short escape take it, and every other character outside the
  printable ASCII range is written with its four-digit hexadecimal escape.
\<close>

definition hex_digits :: string where
  "hex_digits = ''0123456789abcdef''"

definition json_char :: "char \<Rightarrow> string" where
  "json_char c =
     (let n = (of_char c :: nat) in
      if c = CHR 0x22 then [CHR 0x5C, CHR 0x22]
      else if c = CHR 0x5C then [CHR 0x5C, CHR 0x5C]
      else if n = 10 then [CHR 0x5C, CHR ''n'']
      else if n = 13 then [CHR 0x5C, CHR ''r'']
      else if n = 9 then [CHR 0x5C, CHR ''t'']
      else if n = 8 then [CHR 0x5C, CHR ''b'']
      else if n = 12 then [CHR 0x5C, CHR ''f'']
      else if n < 32 \<or> 126 < n
        then [CHR 0x5C, CHR ''u'', CHR ''0'', CHR ''0'', hex_digits ! (n div 16), hex_digits ! (n mod 16)]
      else [c])"

definition json_string :: "string \<Rightarrow> string" where
  "json_string s = CHR 0x22 # concat (map json_char s) @ [CHR 0x22]"

definition json_item :: "nat \<times> string \<Rightarrow> string" where
  "json_item kv = ''    '' @ json_string (str_nat (fst kv)) @ '': '' @ json_string (snd kv)"

fun join_items :: "string list \<Rightarrow> string" where
  "join_items [] = []"
| "join_items [l] = l"
| "join_items (l # ls) = l @ CHR '','' # newline # join_items ls"

definition json_dumps :: "(nat \<times> string) list \<Rightarrow> string" where
  "json_dumps d =
     (if d = [] then ''{}''
      else CHR ''{'' # newline # join_items (map json_item d) @ [newline, CHR ''}''])"

text \<open>Line 196: the dictionary handed to \<^verbatim>\<open>json.dumps\<close>.\<close>

definition map_entries :: "(nat \<times> cvar) list \<Rightarrow> (nat \<times> string) list" where
  "map_entries labels = [(k, cvar_str v). (k, v) \<leftarrow> labels]"

text \<open>
  Lines 164 to 174: the clauses are compiled, the variables numbered from 1, and the
  DIMACS text is stripped and split into \<^verbatim>\<open>cnflines\<close>.
\<close>

definition compiled :: "engine \<Rightarrow> formula list \<Rightarrow> cnf" where
  "compiled eng cls = to_CNF eng (And cls)"

definition labels :: "engine \<Rightarrow> formula list \<Rightarrow> (nat \<times> cvar) list" where
  "labels eng cls = var_labels (vars eng (compiled eng cls))"

definition cnflines :: "engine \<Rightarrow> formula list \<Rightarrow> string list" where
  "cnflines eng cls =
     (let cnf = compiled eng cls;
          cnf_dimacs = py_strip (dumps eng cnf (var_labels_inverse (labels eng cls)))
      in split_lines cnf_dimacs)"

text \<open>
  Lines 176 to 178: the assertion on the first line, the unpacking of its four
  tokens (\<^verbatim>\<open>ValueError\<close> for any other number of tokens) and \<^verbatim>\<open>int(nc)\<close>.
\<close>

definition unpack_header :: "string \<Rightarrow> error + string \<times> string" where
  "unpack_header first =
     (case py_split first of
        [t1, t2, nv, nc] \<Rightarrow> Inr (nv, nc)
      | _ \<Rightarrow> Inl ValueError)"

definition read_header :: "string \<Rightarrow> error + string \<times> int" where
  "read_header first =
     (if \<not> contains ''p cnf'' first then Inl AssertionError
      else (case unpack_header first of
              Inl e \<Rightarrow> Inl e
            | Inr (nv, nc) \<Rightarrow>
                (case py_int nc of
                   None \<Rightarrow> Inl ValueError
                 | Some n \<Rightarrow> Inr (nv, n))))"

text \<open>
  Lines 164 to 196, for the clauses of lines 104 to 162. The result is the error
  raised, or the two files written: path and content of the WCNF file, then of the
  map file. The summary printed on the console is left out.
\<close>

definition emit :: "engine \<Rightarrow> action list \<Rightarrow> cmdargs \<Rightarrow> formula list \<Rightarrow> error + (string \<times> string) list" where
  "emit eng as args cls =
     (case cnflines eng cls of
        [] \<Rightarrow> Inl IndexError
      | first # rest \<Rightarrow>
          (case read_header first of
             Inl e \<Rightarrow> Inl e
           | Inr (nv, n) \<Rightarrow>
               (case soft_clauses (action_cost as) (var_labels_inverse (labels eng cls))
                       (actions as) of
                  Inl e \<Rightarrow> Inl e
                | Inr sa \<Rightarrow>
                    (case soft_clauses order_cost (var_labels_inverse (labels eng cls))
                            (orders as) of
                       Inl e \<Rightarrow> Inl e
                     | Inr so \<Rightarrow>
                         Inr [(output_path args,
                               join_lines (wcnf_header nv n as #
                                 map (weigh (top_cost as)) rest @ sa @ so)),
                              (output_path args @ ''.map'',
                               json_dumps (map_entries (labels eng cls)))]))))"

text \<open>\<^verbatim>\<open>encode_POP\<close>: the plan as the call leaves it, and the error or the files.\<close>

definition encode_POP :: "engine \<Rightarrow> pop \<Rightarrow> cmdargs \<Rightarrow> pop \<times> (error + (string \<times> string) list)" where
  "encode_POP eng p0 args =
     (case generate p0 args of
        (p, Inl e) \<Rightarrow> (p, Inl e)
      | (p, Inr (adders, deleters, cls)) \<Rightarrow> (p, emit eng (pop_A p) args cls))"

section \<open>A reference engine and two plans\<close>

text \<open>
  An engine to run the encoder on: conversion to CNF by distribution, without
  simplification and without auxiliary variables; the variables without duplicates;
  the DIMACS text with the header \<^verbatim>\<open>p cnf <variables> <clauses>\<close>
  and one line per clause, its literals and a final \<^verbatim>\<open>0\<close>.
\<close>

definition cross :: "cnf \<Rightarrow> cnf \<Rightarrow> cnf" where
  "cross xs ys = [x @ y. x \<leftarrow> xs, y \<leftarrow> ys]"

fun cnf_of :: "bool \<Rightarrow> formula \<Rightarrow> cnf" where
  "cnf_of b (Atom x) = [[(PropVar x, b)]]"
| "cnf_of b (Neg f) = cnf_of (\<not> b) f"
| "cnf_of b (Conj f g) =
     (if b then cnf_of b f @ cnf_of b g else cross (cnf_of b f) (cnf_of b g))"
| "cnf_of b (Disj f g) =
     (if b then cross (cnf_of b f) (cnf_of b g) else cnf_of b f @ cnf_of b g)"
| "cnf_of b (Impl f g) =
     (if b then cross (cnf_of False f) (cnf_of True g) else cnf_of True f @ cnf_of False g)"
| "cnf_of b (Or fs) =
     (if b then foldr cross (map (cnf_of b) fs) [[]] else concat (map (cnf_of b) fs))"
| "cnf_of b (And fs) =
     (if b then concat (map (cnf_of b) fs) else foldr cross (map (cnf_of b) fs) [[]])"

definition literal_str :: "(cvar \<rightharpoonup> nat) \<Rightarrow> literal \<Rightarrow> string" where
  "literal_str linv l =
     (case linv (fst l) of
        None \<Rightarrow> ''?''
      | Some k \<Rightarrow> if snd l then str_nat k else CHR ''-'' # str_nat k)"

definition clause_line :: "(cvar \<rightharpoonup> nat) \<Rightarrow> literal list \<Rightarrow> string" where
  "clause_line linv c = concat (map (\<lambda>l. literal_str linv l @ '' '') c) @ ''0''"

definition dimacs_text :: "cnf \<Rightarrow> (cvar \<rightharpoonup> nat) \<Rightarrow> string" where
  "dimacs_text c linv =
     concat (map (\<lambda>l. l @ [newline])
       ((''p cnf '' @ str_nat (length (remdups (map fst (concat c)))) @ '' '' @
           str_nat (length c)) #
        map (clause_line linv) c))"

definition reference_engine :: engine where
  "reference_engine =
     \<lparr>to_CNF = cnf_of True,
      vars = (\<lambda>c. remdups (map fst (concat c))),
      dumps = dimacs_text\<rparr>"

text \<open>The plan of the spec's end-to-end scenario: init adds \<^verbatim>\<open>p\<close>, goal requires it.\<close>

definition a_init :: action where
  "a_init = \<lparr>name = ''init'', pres = [], adds = [''p''], dels = []\<rparr>"

definition a_goal :: action where
  "a_goal = \<lparr>name = ''goal'', pres = [''p''], adds = [], dels = []\<rparr>"

definition small_pop :: pop where
  "small_pop =
     \<lparr>pop_F = [''p''], pop_A = [a_init, a_goal], pop_init = a_init, pop_goal = a_goal,
      pop_links = [(a_init, a_goal)]\<rparr>"

text \<open>The same plan with an action that adds a fact outside \<open>F\<close>.\<close>

definition a_stray :: action where
  "a_stray = \<lparr>name = ''stray'', pres = [], adds = [''r''], dels = []\<rparr>"

definition stray_pop :: pop where
  "stray_pop =
     \<lparr>pop_F = [''p''], pop_A = [a_init, a_stray, a_goal], pop_init = a_init,
      pop_goal = a_goal, pop_links = [(a_init, a_stray), (a_stray, a_goal)]\<rparr>"

text \<open>
  A plan with a threat: \<^verbatim>\<open>use\<close> needs \<^verbatim>\<open>p\<close>, which init adds and \<^verbatim>\<open>del\<close> deletes; its
  links are not transitively closed.
\<close>

definition b_init :: action where
  "b_init = \<lparr>name = ''init'', pres = [], adds = [''p''], dels = []\<rparr>"

definition b_use :: action where
  "b_use = \<lparr>name = ''use'', pres = [''p''], adds = [''q''], dels = []\<rparr>"

definition b_del :: action where
  "b_del = \<lparr>name = ''del'', pres = [], adds = [], dels = [''p'']\<rparr>"

definition b_goal :: action where
  "b_goal = \<lparr>name = ''goal'', pres = [''q''], adds = [], dels = []\<rparr>"

definition threat_pop :: pop where
  "threat_pop =
     \<lparr>pop_F = [''p'', ''q''], pop_A = [b_init, b_use, b_del, b_goal],
      pop_init = b_init, pop_goal = b_goal,
      pop_links = [(b_init, b_use), (b_use, b_del), (b_del, b_goal)]\<rparr>"

definition no_options :: cmdargs where
  "no_options = \<lparr>serial = False, allact = False, deorder = False, output_path = ''out.wcnf''\<rparr>"

definition all_options :: cmdargs where
  "all_options = \<lparr>serial = True, allact = True, deorder = True, output_path = ''out.wcnf''\<rparr>"

text \<open>
  A plan with an action that is the only adder of its own precondition, and a plan
  with a threat, each with an assignment that satisfies its clauses.
\<close>

definition a_loop :: action where
  "a_loop = \<lparr>name = ''loop'', pres = [''r''], adds = [''r''], dels = []\<rparr>"

definition loop_pop :: pop where
  "loop_pop =
     \<lparr>pop_F = [''p'', ''r''], pop_A = [a_init, a_loop, a_goal], pop_init = a_init,
      pop_goal = a_goal, pop_links = [(a_init, a_loop), (a_loop, a_goal)]\<rparr>"

definition loop_plan :: "propn \<Rightarrow> bool" where
  "loop_plan x =
     (x \<in> set [Action a_init, Action a_goal, Order a_init a_goal, Support a_init ''p'' a_goal])"

definition threat_plan :: "propn \<Rightarrow> bool" where
  "threat_plan x =
     (x \<in> set [Action b_init, Action b_use, Action b_del, Action b_goal,
               Order b_init b_use, Order b_init b_del, Order b_init b_goal,
               Order b_use b_del, Order b_use b_goal, Order b_del b_goal,
               Support b_init ''p'' b_use, Support b_use ''q'' b_goal])"

text \<open>The shape of the clauses of line 134: an action implies an n-ary disjunction.\<close>

fun is_support_requirement :: "formula \<Rightarrow> bool" where
  "is_support_requirement (Impl (Atom (Action a)) (Or fs)) = True"
| "is_support_requirement f = False"

text \<open>
  An engine that simplifies: every literal that is a unit clause of the CNF is taken
  as true, the clauses it satisfies are dropped and its negation is removed from the
  others, so that its variable no longer occurs.
\<close>

definition assign :: "literal \<Rightarrow> cnf \<Rightarrow> cnf" where
  "assign l c =
     map (filter (\<lambda>m. m \<noteq> (fst l, \<not> snd l))) (filter (\<lambda>d. l \<notin> set d) c)"

definition units :: "cnf \<Rightarrow> literal list" where
  "units c = concat (map (\<lambda>d. case d of [l] \<Rightarrow> [l] | _ \<Rightarrow> []) c)"

definition simplifying_engine :: engine where
  "simplifying_engine =
     \<lparr>to_CNF = (\<lambda>f. fold assign (units (cnf_of True f)) (cnf_of True f)),
      vars = (\<lambda>c. remdups (map fst (concat c))),
      dumps = dimacs_text\<rparr>"

text \<open>The contents of the two files of a run, when it has written them.\<close>

definition wcnf_file :: "pop \<times> (error + (string \<times> string) list) \<Rightarrow> string option" where
  "wcnf_file r = (case snd r of Inr [w, m] \<Rightarrow> Some (snd w) | _ \<Rightarrow> None)"

definition map_file :: "pop \<times> (error + (string \<times> string) list) \<Rightarrow> string option" where
  "map_file r = (case snd r of Inr [w, m] \<Rightarrow> Some (snd m) | _ \<Rightarrow> None)"

text \<open>
  The truth of a compiled CNF under an assignment of the propositions, to state that
  the conversion of the reference engine keeps the meaning of the formula.
\<close>

fun literal_true :: "(propn \<Rightarrow> bool) \<Rightarrow> literal \<Rightarrow> bool" where
  "literal_true v (PropVar x, s) = (v x = s)"
| "literal_true v (AuxVar a, s) = False"

definition cnf_true :: "(propn \<Rightarrow> bool) \<Rightarrow> cnf \<Rightarrow> bool" where
  "cnf_true v c = list_all (list_ex (literal_true v)) c"

section \<open>Weights\<close>

lemma length_actions: "length (actions as) = length as"
  by (simp add: actions_def)

lemma length_orders: "length (orders as) = length as * length as"
  by (simp add: orders_def length_concat comp_def sum_list_triv)

lemma sum_soft_costs:
  "sum_list (soft_costs as) =
     int (length (actions as)) * action_cost as + int (length (orders as)) * order_cost"
  by (simp add: soft_costs_def sum_list_triv)

text \<open>
  Claim C3. For every list of actions the costs of lines 170 to 172 are: the order
  cost is 1; there are \<open>|A|\<^sup>2\<close> order propositions; the action cost is their number plus
  one; the top cost is the number of orders times the order cost, plus the number of
  actions times the action cost, plus one. Hence one action costs more than all
  orders together, and the top cost is more than the sum of all soft-clause weights.
\<close>

theorem cost_ordering:
  "order_cost = 1 \<and>
   length (orders as) = (length as)\<^sup>2 \<and>
   action_cost as = int (length (orders as)) + 1 \<and>
   top_cost as =
     int (length (orders as)) * order_cost + int (length (actions as)) * action_cost as + 1 \<and>
   action_cost as > order_cost * int (length (orders as)) \<and>
   top_cost as > sum_list (soft_costs as)"
  by (simp add: sum_soft_costs order_cost_def action_cost_def top_cost_def length_orders
        power2_eq_square)

text \<open>The scenario of the spec: two actions, four orders, costs 1, 5 and 15.\<close>

theorem cost_ordering_scenario:
  "length (orders (pop_A small_pop)) = 4 \<and> action_cost (pop_A small_pop) = 5 \<and>
   top_cost (pop_A small_pop) = 15 \<and> sum_list (soft_costs (pop_A small_pop)) = 14"
  using cost_ordering [of "pop_A small_pop"]
  by (simp add: small_pop_def length_actions order_cost_def sum_soft_costs power2_eq_square)

section \<open>The indices\<close>

lemma fold_empty_apply:
  "fold (\<lambda>f m. m(f \<mapsto> [])) fs m g = (if g \<in> set fs then Some [] else m g)"
  by (induction fs arbitrary: m) auto

lemma empty_index_apply: "empty_index fs g = (if g \<in> set fs then Some [] else None)"
  by (simp add: empty_index_def fold_empty_apply)

lemma dom_empty_index: "dom (empty_index fs) = set fs"
  by (auto simp: empty_index_apply dom_def)

lemma at_empty_index: "at (empty_index fs) g = []"
  by (simp add: at_def empty_index_apply)

lemma add_to_index_fails:
  "\<not> set fs \<subseteq> dom idx \<Longrightarrow> add_to_index a fs idx = Inl KeyError"
proof (induction fs arbitrary: idx)
  case Nil
  then show ?case by simp
next
  case (Cons f fs)
  show ?case
  proof (cases "idx f")
    case None
    then show ?thesis by simp
  next
    case (Some s)
    with Cons.prems have "\<not> set fs \<subseteq> dom (idx(f \<mapsto> set_add a s))" by auto
    from Cons.IH [OF this] have "add_to_index a fs (idx(f \<mapsto> set_add a s)) = Inl KeyError" .
    then show ?thesis by (simp only: add_to_index.simps Some option.case)
  qed
qed

lemma add_to_index_succeeds:
  "set fs \<subseteq> dom idx \<Longrightarrow>
   \<exists>idx'. add_to_index a fs idx = Inr idx' \<and> dom idx' = dom idx \<and>
     (\<forall>g. set (at idx' g) = set (at idx g) \<union> (if g \<in> set fs then {a} else {}))"
proof (induction fs arbitrary: idx)
  case Nil
  then show ?case by simp
next
  case (Cons f fs)
  then obtain s where s: "idx f = Some s" by auto
  let ?i = "idx(f \<mapsto> set_add a s)"
  from Cons.prems have "set fs \<subseteq> dom ?i" by auto
  from Cons.IH [OF this] obtain idx' where
    r: "add_to_index a fs ?i = Inr idx'" and d: "dom idx' = dom ?i" and
    m: "\<forall>g. set (at idx' g) = set (at ?i g) \<union> (if g \<in> set fs then {a} else {})"
    by blast
  have "dom ?i = dom idx" using s by auto
  moreover have "set (at ?i g) = set (at idx g) \<union> (if g = f then {a} else {})" for g
    using s by (auto simp: at_def set_add_def)
  ultimately show ?case using r d m s by auto
qed

lemma index_actions_fails:
  "\<exists>a \<in> set as. \<not> (set (adds a) \<subseteq> dom ad \<and> set (dels a) \<subseteq> dom de) \<Longrightarrow>
   index_actions as (ad, de) = Inl KeyError"
proof (induction as arbitrary: ad de)
  case Nil
  then show ?case by simp
next
  case (Cons a as)
  show ?case
  proof (cases "set (adds a) \<subseteq> dom ad")
    case False
    then show ?thesis by (simp add: add_to_index_fails)
  next
    case True
    from add_to_index_succeeds [OF True, of a] obtain ad' where
      ra: "add_to_index a (adds a) ad = Inr ad'" and da: "dom ad' = dom ad" by blast
    show ?thesis
    proof (cases "set (dels a) \<subseteq> dom de")
      case False
      then show ?thesis using ra by (simp add: add_to_index_fails)
    next
      case tt: True
      from add_to_index_succeeds [OF tt, of a] obtain de' where
        rd: "add_to_index a (dels a) de = Inr de'" and dd: "dom de' = dom de" by blast
      from Cons.prems True tt
      have "\<exists>a \<in> set as. \<not> (set (adds a) \<subseteq> dom ad' \<and> set (dels a) \<subseteq> dom de')"
        using da dd by auto
      from Cons.IH [OF this] show ?thesis using ra rd by simp
    qed
  qed
qed

lemma index_actions_succeeds:
  "\<forall>a \<in> set as. set (adds a) \<subseteq> dom ad \<and> set (dels a) \<subseteq> dom de \<Longrightarrow>
   \<exists>ad' de'. index_actions as (ad, de) = Inr (ad', de') \<and> dom ad' = dom ad \<and> dom de' = dom de \<and>
     (\<forall>g. set (at ad' g) = set (at ad g) \<union> {a \<in> set as. g \<in> set (adds a)}) \<and>
     (\<forall>g. set (at de' g) = set (at de g) \<union> {a \<in> set as. g \<in> set (dels a)})"
proof (induction as arbitrary: ad de)
  case Nil
  then show ?case by simp
next
  case (Cons a as)
  from Cons.prems have sa: "set (adds a) \<subseteq> dom ad" and sd: "set (dels a) \<subseteq> dom de" by auto
  from add_to_index_succeeds [OF sa, of a] obtain ad1 where
    ra: "add_to_index a (adds a) ad = Inr ad1" and da: "dom ad1 = dom ad" and
    ma: "\<forall>g. set (at ad1 g) = set (at ad g) \<union> (if g \<in> set (adds a) then {a} else {})"
    by blast
  from add_to_index_succeeds [OF sd, of a] obtain de1 where
    rd: "add_to_index a (dels a) de = Inr de1" and dd: "dom de1 = dom de" and
    md: "\<forall>g. set (at de1 g) = set (at de g) \<union> (if g \<in> set (dels a) then {a} else {})"
    by blast
  from Cons.prems da dd
  have "\<forall>a \<in> set as. set (adds a) \<subseteq> dom ad1 \<and> set (dels a) \<subseteq> dom de1" by auto
  from Cons.IH [OF this] obtain ad' de' where
    r: "index_actions as (ad1, de1) = Inr (ad', de')" and
    d: "dom ad' = dom ad1" "dom de' = dom de1" and
    m1: "\<forall>g. set (at ad' g) = set (at ad1 g) \<union> {a \<in> set as. g \<in> set (adds a)}" and
    m2: "\<forall>g. set (at de' g) = set (at de1 g) \<union> {a \<in> set as. g \<in> set (dels a)}"
    by blast
  have "index_actions (a # as) (ad, de) = Inr (ad', de')" using ra rd r by simp
  moreover have "\<forall>g. set (at ad' g) = set (at ad g) \<union> {x \<in> set (a # as). g \<in> set (adds x)}"
    using m1 ma by auto
  moreover have "\<forall>g. set (at de' g) = set (at de g) \<union> {x \<in> set (a # as). g \<in> set (dels x)}"
    using m2 md by auto
  ultimately show ?case using d da dd by simp
qed

lemma effects_in_F_iff:
  "effects_in_F p \<longleftrightarrow>
     (\<forall>a \<in> set (pop_A p). set (adds a) \<subseteq> set (pop_F p) \<and> set (dels a) \<subseteq> set (pop_F p))"
  by (auto simp: effects_in_F_def list_all_iff)

lemma build_indices_fails: "\<not> effects_in_F p \<Longrightarrow> build_indices p = Inl KeyError"
  unfolding build_indices_def
  by (rule index_actions_fails) (auto simp: effects_in_F_iff dom_empty_index)

lemma build_indices_succeeds:
  assumes "effects_in_F p"
  shows "\<exists>ad de. build_indices p = Inr (ad, de) \<and> dom ad = set (pop_F p) \<and>
           dom de = set (pop_F p) \<and>
           (\<forall>g. set (at ad g) = {a \<in> set (pop_A p). g \<in> set (adds a)}) \<and>
           (\<forall>g. set (at de g) = {a \<in> set (pop_A p). g \<in> set (dels a)})"
proof -
  have "\<forall>a \<in> set (pop_A p). set (adds a) \<subseteq> dom (empty_index (pop_F p)) \<and>
          set (dels a) \<subseteq> dom (empty_index (pop_F p))"
    using assms by (simp add: effects_in_F_iff dom_empty_index)
  from index_actions_succeeds [OF this] show ?thesis
    by (simp add: build_indices_def dom_empty_index at_empty_index)
qed

lemma build_indices_Inr:
  assumes "build_indices p = Inr (ad, de)"
  shows "effects_in_F p" and "dom ad = set (pop_F p)" and "dom de = set (pop_F p)"
    and "set (at ad g) = {a \<in> set (pop_A p). g \<in> set (adds a)}"
    and "set (at de g) = {a \<in> set (pop_A p). g \<in> set (dels a)}"
proof -
  show e: "effects_in_F p" using assms build_indices_fails [of p] by auto
  from build_indices_succeeds [OF e] assms
  show "dom ad = set (pop_F p)" and "dom de = set (pop_F p)"
    and "set (at ad g) = {a \<in> set (pop_A p). g \<in> set (adds a)}"
    and "set (at de g) = {a \<in> set (pop_A p). g \<in> set (dels a)}"
    by auto
qed

lemma closed_fields [simp]:
  "pop_F (transativly_close p) = pop_F p" "pop_A (transativly_close p) = pop_A p"
  "pop_init (transativly_close p) = pop_init p" "pop_goal (transativly_close p) = pop_goal p"
  by (simp_all add: transativly_close_def)

lemma effects_in_F_closed [simp]: "effects_in_F (transativly_close p) = effects_in_F p"
  by (simp add: effects_in_F_def)

lemma fst_generate [simp]: "fst (generate p args) = transativly_close p"
  by (simp add: generate_def Let_def)

lemma fst_encode_POP [simp]: "fst (encode_POP eng p args) = transativly_close p"
  by (simp add: encode_POP_def generate_def Let_def split: sum.splits prod.splits)

lemma generate_fails:
  "\<not> effects_in_F p \<Longrightarrow> snd (generate p args) = Inl KeyError"
  by (simp add: generate_def Let_def build_indices_fails)

lemma generate_Inr:
  assumes "snd (generate p args) = Inr (ad, de, cls)"
  shows "build_indices (transativly_close p) = Inr (ad, de)"
    and "pres_indexed ad (pop_A p)"
    and "cls = clauses (transativly_close p) args ad de"
  using assms by (auto simp: generate_def Let_def split: sum.splits if_splits)

lemma pres_indexed_iff:
  assumes "dom idx = set fs"
  shows "pres_indexed idx as \<longleftrightarrow> (\<forall>a \<in> set as. set (pres a) \<subseteq> set fs)"
proof -
  have "(idx q \<noteq> None) = (q \<in> set fs)" for q
    using assms by (metis domIff)
  then show ?thesis
    by (auto simp: pres_indexed_def list_all_iff)
qed

lemma generate_succeeds:
  assumes "effects_in_F p" and "\<forall>a \<in> set (pop_A p). set (pres a) \<subseteq> set (pop_F p)"
  shows "\<exists>ad de. snd (generate p args) = Inr (ad, de, clauses (transativly_close p) args ad de)"
proof -
  from assms(1) have "effects_in_F (transativly_close p)" by simp
  from build_indices_succeeds [OF this] obtain ad de where
    b: "build_indices (transativly_close p) = Inr (ad, de)" and d: "dom ad = set (pop_F p)"
    by auto
  from pres_indexed_iff [OF d] assms(2) have "pres_indexed ad (pop_A p)" by simp
  with b show ?thesis by (simp add: generate_def Let_def)
qed

lemma encode_POP_snd:
  "snd (encode_POP eng p args) =
     (case snd (generate p args) of
        Inl e \<Rightarrow> Inl e
      | Inr (ad, de, cls) \<Rightarrow> emit eng (pop_A p) args cls)"
  by (cases "generate p args")
     (auto simp: encode_POP_def generate_def Let_def split: sum.splits prod.splits if_splits)

text \<open>
  Claim C10. Index construction succeeds exactly when every fact that an action adds
  or deletes is a member of \<open>F\<close>. When some action adds or deletes a fact outside
  \<open>F\<close>, the construction raises \<^verbatim>\<open>KeyError\<close>, and so does \<^verbatim>\<open>encode_POP\<close>: no clause is
  generated and no file is written.
\<close>

theorem effects_outside_F:
  "((\<forall>a \<in> set (pop_A p). \<forall>f \<in> set (adds a) \<union> set (dels a). f \<in> set (pop_F p)) \<longrightarrow>
      (\<exists>adders deleters. build_indices (transativly_close p) = Inr (adders, deleters))) \<and>
   ((\<exists>a \<in> set (pop_A p). \<exists>f \<in> set (adds a) \<union> set (dels a). f \<notin> set (pop_F p)) \<longrightarrow>
      build_indices (transativly_close p) = Inl KeyError \<and>
      snd (generate p args) = Inl KeyError \<and>
      snd (encode_POP eng p args) = Inl KeyError)"
proof (cases "effects_in_F p")
  case True
  then have "effects_in_F (transativly_close p)" by simp
  from build_indices_succeeds [OF this] True show ?thesis
    unfolding effects_in_F_iff by blast
next
  case False
  then have f: "\<not> effects_in_F (transativly_close p)" by simp
  have "snd (encode_POP eng p args) = Inl KeyError"
    using generate_fails [OF False, of args] by (simp add: encode_POP_snd)
  moreover have "\<exists>a \<in> set (pop_A p). \<exists>f \<in> set (adds a) \<union> set (dels a). f \<notin> set (pop_F p)"
    using False unfolding effects_in_F_iff by blast
  ultimately show ?thesis using False f by (simp add: build_indices_fails generate_fails)
qed

theorem effects_outside_F_witness:
  "(\<exists>adders deleters. build_indices (transativly_close small_pop) = Inr (adders, deleters)) \<and>
   build_indices (transativly_close stray_pop) = Inl KeyError \<and>
   snd (encode_POP reference_engine stray_pop no_options) = Inl KeyError"
  using effects_outside_F [of small_pop no_options reference_engine]
    effects_outside_F [of stray_pop no_options reference_engine]
  by (simp add: small_pop_def stray_pop_def a_init_def a_goal_def a_stray_def)

section \<open>The generated clauses\<close>

lemma filter_none: "(\<And>x. x \<in> set xs \<Longrightarrow> \<not> P x) \<Longrightarrow> filter P xs = []"
  by (simp add: filter_empty_conv)

lemma filter_all: "(\<And>x. x \<in> set xs \<Longrightarrow> P x) \<Longrightarrow> filter P xs = xs"
  by (simp add: filter_id_conv)

lemma filter_irreflexive: "filter is_support_requirement (irreflexive as) = []"
  by (rule filter_none) (auto simp: irreflexive_def)

lemma filter_transitive: "filter is_support_requirement (transitive as) = []"
  by (rule filter_none) (auto simp: transitive_def)

lemma filter_order_needs_actions: "filter is_support_requirement (order_needs_actions as) = []"
  by (rule filter_none) (auto simp: order_needs_actions_def)

lemma filter_bracketing: "filter is_support_requirement (bracketing i g as) = []"
  by (rule filter_none) (auto simp: bracketing_def bracket_def split: if_splits)

lemma filter_endpoints: "filter is_support_requirement (endpoints i g) = []"
  by (simp add: endpoints_def)

lemma filter_preconditions:
  "filter is_support_requirement (preconditions ad as) = preconditions ad as"
  by (rule filter_all) (auto simp: preconditions_def precondition_def)

lemma filter_unthreatened: "filter is_support_requirement (unthreatened ad de as) = []"
  by (rule filter_none) (auto simp: unthreatened_def support_clauses_def threat_def)

lemma filter_serial: "filter is_support_requirement (serial_clauses as) = []"
  by (rule filter_none) (auto simp: serial_clauses_def)

lemma filter_allact: "filter is_support_requirement (allact_clauses as) = []"
  by (rule filter_none) (auto simp: allact_clauses_def)

lemma filter_deorder: "filter is_support_requirement (deorder_clauses p) = []"
  by (rule filter_none) (auto simp: deorder_clauses_def)

lemma filter_clauses:
  "filter is_support_requirement (clauses p args ad de) = preconditions ad (pop_A p)"
  by (simp add: clauses_def base_clauses_def filter_irreflexive filter_transitive
      filter_order_needs_actions filter_bracketing filter_endpoints filter_preconditions
      filter_unthreatened filter_serial filter_allact filter_deorder)

lemma precondition_in_clauses:
  "a2 \<in> set (pop_A p) \<Longrightarrow> q \<in> set (pres a2) \<Longrightarrow>
   precondition ad a2 q \<in> set (clauses p args ad de)"
  by (auto simp: clauses_def base_clauses_def preconditions_def)

lemma threat_in_clauses:
  "a2 \<in> set (pop_A p) \<Longrightarrow> q \<in> set (pres a2) \<Longrightarrow> a1 \<in> set (at ad q) \<Longrightarrow> a1 \<noteq> a2 \<Longrightarrow>
   d \<in> set (at de q) \<Longrightarrow> d \<noteq> a1 \<Longrightarrow> d \<noteq> a2 \<Longrightarrow>
   threat a1 q a2 d \<in> set (clauses p args ad de)"
  by (fastforce simp: clauses_def base_clauses_def unthreatened_def support_clauses_def
      others_def)

text \<open>
  Claim C1. The clauses of the shape "action implies an n-ary disjunction" are exactly
  one per action \<open>a2\<close> of \<open>A\<close> and precondition \<open>q\<close> of \<open>a2\<close>, in the order of
  iteration: \<open>Action(a2)\<close> implies the disjunction of \<open>Support(a1, q, a2)\<close> over the
  adders \<open>a1\<close> of \<open>q\<close> other than \<open>a2\<close>. When \<open>q\<close> has no adder other than \<open>a2\<close> the
  disjunction is empty, and every assignment that satisfies all clauses makes
  \<open>Action(a2)\<close> false.
\<close>

theorem support_required:
  assumes "snd (generate p args) = Inr (adders, deleters, cls)"
  shows "filter is_support_requirement cls =
           [Impl (Atom (Action a2))
                 (Or [Atom (Support a1 q a2). a1 \<leftarrow> [x. x \<leftarrow> at adders q, x \<noteq> a2]]).
              a2 \<leftarrow> pop_A p, q \<leftarrow> pres a2] \<and>
         (\<forall>a2 \<in> set (pop_A p). \<forall>q \<in> set (pres a2).
            Impl (Atom (Action a2))
                 (Or [Atom (Support a1 q a2). a1 \<leftarrow> [x. x \<leftarrow> at adders q, x \<noteq> a2]]) \<in> set cls \<and>
            ((\<forall>a1 \<in> set (at adders q). a1 = a2) \<longrightarrow>
               [x. x \<leftarrow> at adders q, x \<noteq> a2] = [] \<and>
               (\<forall>v. (\<forall>c \<in> set cls. holds v c) \<longrightarrow> \<not> v (Action a2))))"
proof -
  from generate_Inr [OF assms] have
    cls: "cls = clauses (transativly_close p) args adders deleters" by simp
  have shape: "precondition adders a2 q =
      Impl (Atom (Action a2)) (Or [Atom (Support a1 q a2). a1 \<leftarrow> [x. x \<leftarrow> at adders q, x \<noteq> a2]])"
    for a2 q
    by (simp add: precondition_def others_def)
  have one: "filter is_support_requirement cls =
      [Impl (Atom (Action a2))
            (Or [Atom (Support a1 q a2). a1 \<leftarrow> [x. x \<leftarrow> at adders q, x \<noteq> a2]]).
         a2 \<leftarrow> pop_A p, q \<leftarrow> pres a2]"
    unfolding cls filter_clauses preconditions_def shape by simp
  have two: "Impl (Atom (Action a2))
        (Or [Atom (Support a1 q a2). a1 \<leftarrow> [x. x \<leftarrow> at adders q, x \<noteq> a2]]) \<in> set cls \<and>
      ((\<forall>a1 \<in> set (at adders q). a1 = a2) \<longrightarrow>
         [x. x \<leftarrow> at adders q, x \<noteq> a2] = [] \<and>
         (\<forall>v. (\<forall>c \<in> set cls. holds v c) \<longrightarrow> \<not> v (Action a2)))"
    if a2: "a2 \<in> set (pop_A p)" and q: "q \<in> set (pres a2)" for a2 q
  proof -
    let ?c = "Impl (Atom (Action a2))
        (Or [Atom (Support a1 q a2). a1 \<leftarrow> [x. x \<leftarrow> at adders q, x \<noteq> a2]])"
    have m: "?c \<in> set cls"
      using precondition_in_clauses [of a2 "transativly_close p" q adders args deleters] a2 q
      unfolding cls shape by simp
    have "[x. x \<leftarrow> at adders q, x \<noteq> a2] = [] \<and>
         (\<forall>v. (\<forall>c \<in> set cls. holds v c) \<longrightarrow> \<not> v (Action a2))"
      if e: "\<forall>a1 \<in> set (at adders q). a1 = a2"
    proof -
      from e have n: "[x. x \<leftarrow> at adders q, x \<noteq> a2] = []"
        by (induction "at adders q") auto
      have "\<not> v (Action a2)" if s: "\<forall>c \<in> set cls. holds v c" for v
      proof -
        from s m have "holds v ?c" by blast
        then show ?thesis unfolding n by simp
      qed
      with n show ?thesis by blast
    qed
    with m show ?thesis by blast
  qed
  from one two show ?thesis by blast
qed

text \<open>
  Claim C2. For every action \<open>a2\<close>, precondition \<open>q\<close> of \<open>a2\<close>, adder \<open>a1\<close> of \<open>q\<close> other
  than \<open>a2\<close> and deleter \<open>ad\<close> of \<open>q\<close> other than \<open>a1\<close> and \<open>a2\<close>, the clause
  \<open>Support(a1, q, a2)\<close> implies \<open>\<not>Action(ad) \<or> Order(ad, a1) \<or> Order(a2, ad)\<close> is
  generated; so an assignment that satisfies all clauses and \<open>Support(a1, q, a2)\<close> has
  the deleter absent, or before \<open>a1\<close>, or after \<open>a2\<close>.
\<close>

theorem threat_resolved:
  assumes "snd (generate p args) = Inr (adders, deleters, cls)"
    and "a2 \<in> set (pop_A p)" and "q \<in> set (pres a2)"
    and "a1 \<in> set (at adders q)" and "a1 \<noteq> a2"
    and "ad \<in> set (at deleters q)" and "ad \<notin> {a1, a2}"
  shows "Impl (Atom (Support a1 q a2))
              (Disj (Disj (Neg (Atom (Action ad))) (Atom (Order ad a1))) (Atom (Order a2 ad)))
           \<in> set cls \<and>
         (\<forall>v. (\<forall>c \<in> set cls. holds v c) \<and> v (Support a1 q a2) \<longrightarrow>
            \<not> v (Action ad) \<or> v (Order ad a1) \<or> v (Order a2 ad))"
proof -
  from generate_Inr [OF assms(1)] have
    cls: "cls = clauses (transativly_close p) args adders deleters" by simp
  let ?c = "Impl (Atom (Support a1 q a2))
              (Disj (Disj (Neg (Atom (Action ad))) (Atom (Order ad a1))) (Atom (Order a2 ad)))"
  have m: "?c \<in> set cls"
    using threat_in_clauses [of a2 "transativly_close p" q a1 adders ad deleters args] assms
    unfolding cls threat_def by simp
  have "\<not> v (Action ad) \<or> v (Order ad a1) \<or> v (Order a2 ad)"
    if s: "\<forall>c \<in> set cls. holds v c" and t: "v (Support a1 q a2)" for v
  proof -
    from s m have "holds v ?c" by blast
    with t show ?thesis by simp
  qed
  with m show ?thesis by blast
qed

lemmas loop_defs = loop_pop_def a_init_def a_goal_def a_loop_def no_options_def

text \<open>
  On the plan with the action \<^verbatim>\<open>loop\<close>, which alone adds its precondition: its clause has
  the empty disjunction, and the plan of init and goal satisfies all clauses.
\<close>

theorem support_required_witness:
  "\<exists>adders deleters cls.
     snd (generate loop_pop no_options) = Inr (adders, deleters, cls) \<and>
     filter is_support_requirement cls =
       [Impl (Atom (Action a_loop)) (Or []),
        Impl (Atom (Action a_goal)) (Or [Atom (Support a_init ''p'' a_goal)])] \<and>
     (\<forall>c \<in> set cls. holds loop_plan c) \<and> \<not> loop_plan (Action a_loop)"
proof -
  have "effects_in_F loop_pop" and "\<forall>a \<in> set (pop_A loop_pop). set (pres a) \<subseteq> set (pop_F loop_pop)"
    by (simp_all add: effects_in_F_def loop_defs)
  from generate_succeeds [OF this] obtain ad de cls where
    g: "snd (generate loop_pop no_options) = Inr (ad, de, cls)" by blast
  from generate_Inr [OF g] have
    b: "build_indices (transativly_close loop_pop) = Inr (ad, de)" and
    c: "cls = clauses (transativly_close loop_pop) no_options ad de" by simp_all
  from b have r: "at ad ''r'' = [a_loop]" and p: "at ad ''p'' = [a_init]"
    and dr: "at de ''r'' = []" and dp: "at de ''p'' = []"
    by (auto simp: build_indices_def empty_index_def set_add_def at_def loop_defs)
  have A: "pop_A loop_pop = [a_init, a_loop, a_goal]" "pop_init loop_pop = a_init"
    "pop_goal loop_pop = a_goal" by (simp_all add: loop_pop_def)
  have prs: "pres a_init = []" "pres a_loop = [''r'']" "pres a_goal = [''p'']"
    by (simp_all add: loop_defs)
  have ne: "a_init \<noteq> a_loop" "a_init \<noteq> a_goal" "a_loop \<noteq> a_goal"
    by (simp_all add: loop_defs)
  from support_required [OF g] have
    f: "filter is_support_requirement cls =
      [Impl (Atom (Action a_loop)) (Or []),
        Impl (Atom (Action a_goal)) (Or [Atom (Support a_init ''p'' a_goal)])]"
    by (simp add: A prs r p ne)
  have s: "\<forall>c \<in> set cls. holds loop_plan c"
    unfolding c clauses_def base_clauses_def
    using ne ne [symmetric]
    by (simp add: A prs r p dr dp irreflexive_def transitive_def order_needs_actions_def
        bracketing_def bracket_def endpoints_def preconditions_def precondition_def others_def
        unthreatened_def support_clauses_def loop_plan_def no_options_def)
  from support_required [OF g] s have "\<not> loop_plan (Action a_loop)"
    by (auto simp: A prs r)
  with g f s show ?thesis by blast
qed


lemmas threat_defs = threat_pop_def b_init_def b_use_def b_del_def b_goal_def

text \<open>On the plan with a threat: the deleter comes after the consumer.\<close>

theorem threat_resolved_witness:
  "\<exists>adders deleters cls.
     snd (generate threat_pop no_options) = Inr (adders, deleters, cls) \<and>
     Impl (Atom (Support b_init ''p'' b_use))
       (Disj (Disj (Neg (Atom (Action b_del))) (Atom (Order b_del b_init)))
             (Atom (Order b_use b_del))) \<in> set cls \<and>
     (\<forall>c \<in> set cls. holds threat_plan c) \<and> threat_plan (Support b_init ''p'' b_use) \<and>
     (\<not> threat_plan (Action b_del) \<or> threat_plan (Order b_del b_init) \<or>
      threat_plan (Order b_use b_del))"
proof -
  have "effects_in_F threat_pop"
    and "\<forall>a \<in> set (pop_A threat_pop). set (pres a) \<subseteq> set (pop_F threat_pop)"
    by (simp_all add: effects_in_F_def threat_defs)
  from generate_succeeds [OF this] obtain ad de cls where
    g: "snd (generate threat_pop no_options) = Inr (ad, de, cls)" by blast
  from generate_Inr [OF g] have
    b: "build_indices (transativly_close threat_pop) = Inr (ad, de)" and
    c: "cls = clauses (transativly_close threat_pop) no_options ad de" by simp_all
  from b have ix: "at ad ''p'' = [b_init]" "at ad ''q'' = [b_use]"
    "at de ''p'' = [b_del]" "at de ''q'' = []"
    by (auto simp: build_indices_def empty_index_def set_add_def at_def threat_defs)
  have A: "pop_A threat_pop = [b_init, b_use, b_del, b_goal]" "pop_init threat_pop = b_init"
    "pop_goal threat_pop = b_goal" by (simp_all add: threat_pop_def)
  have prs: "pres b_init = []" "pres b_use = [''p'']" "pres b_del = []" "pres b_goal = [''q'']"
    by (simp_all add: threat_defs)
  have ne: "b_init \<noteq> b_use" "b_init \<noteq> b_del" "b_init \<noteq> b_goal" "b_use \<noteq> b_del"
    "b_use \<noteq> b_goal" "b_del \<noteq> b_goal"
    by (simp_all add: threat_defs)
  have s: "\<forall>c \<in> set cls. holds threat_plan c"
    unfolding c clauses_def base_clauses_def
    using ne ne [symmetric]
    by (simp add: A prs ix irreflexive_def transitive_def order_needs_actions_def
        bracketing_def bracket_def endpoints_def preconditions_def precondition_def others_def
        unthreatened_def support_clauses_def threat_def threat_plan_def no_options_def)
  have t: "threat_plan (Support b_init ''p'' b_use)"
    by (simp add: threat_plan_def)
  from threat_resolved [OF g, of b_use "''p''" b_init b_del] s t ne
  show ?thesis using g by (auto simp: A prs ix)
qed

lemma length_concat_if:
  "length (concat (map (\<lambda>y. if P y then [g y] else []) ys)) = length (filter P ys)"
  by (induction ys) auto

lemma filter_others_id: "x \<notin> set xs \<Longrightarrow> filter (\<lambda>y. x \<noteq> y) xs = xs"
  by (induction xs) auto

lemma length_filter_others:
  "distinct xs \<Longrightarrow> x \<in> set xs \<Longrightarrow> length (filter (\<lambda>y. x \<noteq> y) xs) = length xs - 1"
proof (induction xs)
  case Nil
  then show ?case by simp
next
  case (Cons a xs)
  show ?case
  proof (cases "x = a")
    case True
    with Cons.prems have "x \<notin> set xs" by simp
    from filter_others_id [OF this] True show ?thesis by simp
  next
    case False
    with Cons.prems have m: "x \<in> set xs" and d: "distinct xs" by simp_all
    from m have "0 < length xs" by (rule length_pos_if_in_set)
    with Cons.IH [OF d m] False show ?thesis by simp
  qed
qed

lemma length_concat_map: "length (concat (map F xs)) = sum_list (map (\<lambda>x. length (F x)) xs)"
  by (induction xs) auto

lemma length_distinct_pairs:
  assumes "distinct xs"
  shows "length [f a1 a2. a1 \<leftarrow> xs, a2 \<leftarrow> xs, a1 \<noteq> a2] = length xs * (length xs - 1)"
proof -
  have "length [f a1 a2. a1 \<leftarrow> xs, a2 \<leftarrow> xs, a1 \<noteq> a2] =
      sum_list (map (\<lambda>a1. length (filter (\<lambda>a2. a1 \<noteq> a2) xs)) xs)"
    by (subst length_concat_map) (simp only: length_concat_if)
  also have "\<dots> = sum_list (map (\<lambda>a1. length xs - 1) xs)"
    by (rule arg_cong [where f = sum_list], rule map_cong)
       (simp_all add: length_filter_others [OF assms])
  also have "\<dots> = length xs * (length xs - 1)"
    by (simp add: sum_list_triv)
  finally show ?thesis .
qed

text \<open>
  Claim C5. The clause list of a run is the clause list of the run without options,
  followed by: with \<^verbatim>\<open>--serial\<close>, one clause \<open>Action(a1) \<and> Action(a2)\<close> implies
  \<open>Order(a1, a2) \<or> Order(a2, a1)\<close> per ordered pair of distinct actions, \<open>|A| (|A| - 1)\<close>
  clauses when the actions are pairwise distinct; with \<^verbatim>\<open>--allact\<close>, one unit clause
  \<open>Action(a)\<close> per action, \<open>|A|\<close> clauses; with \<^verbatim>\<open>--deorder\<close>, one unit clause
  \<open>\<not>Order(aj, ai)\<close> per link \<open>(ai, aj)\<close> that \<^verbatim>\<open>get_links()\<close> returns.
\<close>

theorem option_effects:
  assumes "snd (generate p args) = Inr (adders, deleters, cls)"
  shows "\<exists>base.
     snd (generate p (args\<lparr>serial := False, allact := False, deorder := False\<rparr>)) =
       Inr (adders, deleters, base) \<and>
     cls = base @
       (if serial args
        then [Impl (Conj (Atom (Action a1)) (Atom (Action a2)))
                   (Disj (Atom (Order a1 a2)) (Atom (Order a2 a1))).
                a1 \<leftarrow> pop_A p, a2 \<leftarrow> pop_A p, a1 \<noteq> a2]
        else []) @
       (if allact args then [Atom (Action a). a \<leftarrow> pop_A p] else []) @
       (if deorder args
        then [Neg (Atom (Order aj ai)). (ai, aj) \<leftarrow> get_links (transativly_close p)]
        else []) \<and>
     (distinct (pop_A p) \<longrightarrow>
        length [Impl (Conj (Atom (Action a1)) (Atom (Action a2)))
                     (Disj (Atom (Order a1 a2)) (Atom (Order a2 a1))).
                  a1 \<leftarrow> pop_A p, a2 \<leftarrow> pop_A p, a1 \<noteq> a2] =
        length (pop_A p) * (length (pop_A p) - 1)) \<and>
     length [Atom (Action a). a \<leftarrow> pop_A p] = length (pop_A p) \<and>
     length [Neg (Atom (Order aj ai)). (ai, aj) \<leftarrow> get_links (transativly_close p)] =
       length (get_links (transativly_close p))"
proof -
  let ?args0 = "args\<lparr>serial := False, allact := False, deorder := False\<rparr>"
  let ?q = "transativly_close p"
  from generate_Inr [OF assms] have
    b: "build_indices ?q = Inr (adders, deleters)" and i: "pres_indexed adders (pop_A p)" and
    c: "cls = clauses ?q args adders deleters" by simp_all
  have g0: "snd (generate p ?args0) = Inr (adders, deleters, clauses ?q ?args0 adders deleters)"
    using b i by (simp add: generate_def Let_def)
  have b0: "clauses ?q ?args0 adders deleters = base_clauses ?q adders deleters"
    by (simp add: clauses_def)
  have "cls = base_clauses ?q adders deleters @
       (if serial args
        then [Impl (Conj (Atom (Action a1)) (Atom (Action a2)))
                   (Disj (Atom (Order a1 a2)) (Atom (Order a2 a1))).
                a1 \<leftarrow> pop_A p, a2 \<leftarrow> pop_A p, a1 \<noteq> a2]
        else []) @
       (if allact args then [Atom (Action a). a \<leftarrow> pop_A p] else []) @
       (if deorder args
        then [Neg (Atom (Order aj ai)). (ai, aj) \<leftarrow> get_links (transativly_close p)]
        else [])"
    unfolding c clauses_def serial_clauses_def allact_clauses_def deorder_clauses_def by simp
  moreover have "length [Neg (Atom (Order aj ai)). (ai, aj) \<leftarrow> get_links ?q] =
      length (get_links ?q)"
    by (simp add: length_concat comp_def case_prod_beta sum_list_triv)
  moreover have "length [Atom (Action a). a \<leftarrow> pop_A p] = length (pop_A p)" by simp
  ultimately show ?thesis using g0 b0 length_distinct_pairs [of "pop_A p"] by auto
qed

lemma closed_threat_pop:
  "pop_links (transativly_close threat_pop) =
     [(b_init, b_use), (b_use, b_del), (b_del, b_goal),
      (b_init, b_del), (b_init, b_goal), (b_use, b_goal)]"
  by code_simp

text \<open>On the plan with a threat, all options add 12, 4 and 6 clauses.\<close>

theorem option_effects_witness:
  "\<exists>adders deleters cls base.
     snd (generate threat_pop all_options) = Inr (adders, deleters, cls) \<and>
     snd (generate threat_pop no_options) = Inr (adders, deleters, base) \<and>
     distinct (pop_A threat_pop) \<and> length (pop_A threat_pop) = 4 \<and>
     length (get_links (transativly_close threat_pop)) = 6 \<and>
     length cls = length base + 12 + 4 + 6"
proof -
  have "effects_in_F threat_pop"
    and "\<forall>a \<in> set (pop_A threat_pop). set (pres a) \<subseteq> set (pop_F threat_pop)"
    by (simp_all add: effects_in_F_def threat_defs)
  from generate_succeeds [OF this] obtain ad de cls where
    g: "snd (generate threat_pop all_options) = Inr (ad, de, cls)" by blast
  have o: "all_options\<lparr>serial := False, allact := False, deorder := False\<rparr> = no_options"
    by (simp add: all_options_def no_options_def)
  have d: "distinct (pop_A threat_pop)" and n: "length (pop_A threat_pop) = 4"
    by (simp_all add: threat_defs)
  have l: "length (get_links (transativly_close threat_pop)) = 6"
    by (simp add: get_links_def closed_threat_pop)
  have f: "serial all_options" "allact all_options" "deorder all_options"
    by (simp_all add: all_options_def)
  from option_effects [OF g] obtain base where
    b: "snd (generate threat_pop no_options) = Inr (ad, de, base)" and
    "length cls = length base + 12 + 4 + 6"
    unfolding o using d n l f by fastforce
  with g d n l show ?thesis by blast
qed

section \<open>The plan after encoding\<close>

lemma trancl_nodes:
  assumes "(a, b) \<in> (set ls)\<^sup>+"
  shows "a \<in> set (link_nodes ls) \<and> b \<in> set (link_nodes ls)"
proof -
  from assms have "a \<in> Domain ((set ls)\<^sup>+)" and "b \<in> Range ((set ls)\<^sup>+)"
    by (rule DomainI, rule RangeI)
  then have "a \<in> Domain (set ls)" and "b \<in> Range (set ls)"
    by (simp_all only: trancl_domain trancl_range)
  then show ?thesis
    by (force simp: link_nodes_def Domain_fst Range_snd)
qed

lemma set_closed_links:
  "set (pop_links (transativly_close p)) = (set (pop_links p))\<^sup>+"
proof
  show "set (pop_links (transativly_close p)) \<subseteq> (set (pop_links p))\<^sup>+"
    by (auto simp: transativly_close_def)
  show "(set (pop_links p))\<^sup>+ \<subseteq> set (pop_links (transativly_close p))"
  proof
    fix e assume e: "e \<in> (set (pop_links p))\<^sup>+"
    obtain a b where ab: "e = (a, b)" by (cases e)
    from e ab trancl_nodes [of a b "pop_links p"]
    show "e \<in> set (pop_links (transativly_close p))"
      by (auto simp: transativly_close_def)
  qed
qed

lemma closed_unchanged_iff:
  "transativly_close p = p \<longleftrightarrow> trans (set (pop_links p))"
proof
  assume "transativly_close p = p"
  then have "set (pop_links (transativly_close p)) = set (pop_links p)" by simp
  then have "(set (pop_links p))\<^sup>+ = set (pop_links p)" by (simp add: set_closed_links)
  then show "trans (set (pop_links p))" by (metis trans_trancl)
next
  assume "trans (set (pop_links p))"
  then have "(set (pop_links p))\<^sup>+ = set (pop_links p)" by (rule trancl_id)
  then have "[(a, b). a \<leftarrow> link_nodes (pop_links p), b \<leftarrow> link_nodes (pop_links p),
                  (a, b) \<in> (set (pop_links p))\<^sup>+ \<and> (a, b) \<notin> set (pop_links p)] = []"
    by simp
  then show "transativly_close p = p"
    unfolding transativly_close_def by simp
qed

text \<open>
  Claim C6, as amended. \<^verbatim>\<open>encode_POP\<close> itself closes the plan: line 23 calls
  \<^verbatim>\<open>pop.transativly_close()\<close> before anything is read. The plan it leaves is the closed
  plan: facts, actions, init and goal are unchanged, the links are the transitive
  closure of the given links, and the plan is unchanged exactly when its links were
  transitively closed already.
\<close>

theorem plan_after_encoding:
  "fst (encode_POP eng p args) = transativly_close p \<and>
   pop_F (fst (encode_POP eng p args)) = pop_F p \<and>
   pop_A (fst (encode_POP eng p args)) = pop_A p \<and>
   pop_init (fst (encode_POP eng p args)) = pop_init p \<and>
   pop_goal (fst (encode_POP eng p args)) = pop_goal p \<and>
   set (get_links (fst (encode_POP eng p args))) = (set (get_links p))\<^sup>+ \<and>
   (fst (encode_POP eng p args) = p \<longleftrightarrow> trans (set (get_links p)))"
  by (simp add: get_links_def set_closed_links closed_unchanged_iff)

text \<open>The plan of the scenario has one link, and is left as it was.\<close>

theorem plan_after_encoding_witness:
  "trans (set (get_links small_pop)) \<and>
   fst (encode_POP reference_engine small_pop no_options) = small_pop"
proof -
  have "trans (set (get_links small_pop))"
    by (auto simp: get_links_def small_pop_def a_init_def a_goal_def trans_def)
  with plan_after_encoding [of reference_engine small_pop no_options] show ?thesis by simp
qed

text \<open>
  Claim C6 as stated fails: the plan with a threat has three links that are not
  transitively closed, and encoding changes it.
\<close>

theorem encoding_closes_plan:
  "fst (encode_POP reference_engine threat_pop no_options) \<noteq> threat_pop"
proof
  assume "fst (encode_POP reference_engine threat_pop no_options) = threat_pop"
  then have "pop_links (transativly_close threat_pop) = pop_links threat_pop" by simp
  then show False
    by (simp add: closed_threat_pop) (simp add: threat_pop_def)
qed

section \<open>The output files\<close>

lemma fold_labels:
  "fold (\<lambda>(k, v) m. m(v \<mapsto> k)) (enumerate n vs) m x = Some k \<Longrightarrow>
   m x = Some k \<or> (n \<le> k \<and> k < n + length vs \<and> vs ! (k - n) = x)"
proof (induction vs arbitrary: n m)
  case Nil
  then show ?case by simp
next
  case (Cons v vs)
  from Cons.prems have
    "fold (\<lambda>(k, v) m. m(v \<mapsto> k)) (enumerate (Suc n) vs) (m(v \<mapsto> n)) x = Some k"
    by (simp only: enumerate_simps fold_Cons o_apply prod.case)
  from Cons.IH [OF this] show ?case
  proof
    assume "(m(v \<mapsto> n)) x = Some k"
    then show ?thesis by (auto split: if_splits)
  next
    assume "Suc n \<le> k \<and> k < Suc n + length vs \<and> vs ! (k - Suc n) = x"
    then show ?thesis by (auto simp: nth_Cons')
  qed
qed

lemma dom_fold_labels:
  "dom (fold (\<lambda>(k, v) m. m(v \<mapsto> k)) (enumerate n vs) m) = dom m \<union> set vs"
  by (induction vs arbitrary: n m) auto

lemma var_labels_inverse_Some:
  "var_labels_inverse (var_labels vs) x = Some k \<Longrightarrow>
   1 \<le> k \<and> k \<le> length vs \<and> vs ! (k - 1) = x"
  using fold_labels [of 1 vs Map.empty x k]
  by (auto simp: var_labels_inverse_def var_labels_def)

lemma dom_var_labels_inverse: "dom (var_labels_inverse (var_labels vs)) = set vs"
  by (simp add: var_labels_inverse_def var_labels_def dom_fold_labels)

lemma soft_clauses_Inr:
  "soft_clauses c linv xs = Inr ls \<Longrightarrow>
   \<exists>vs. map (\<lambda>x. linv (PropVar x)) xs = map Some vs \<and> ls = map (soft_clause c) vs"
proof (induction xs arbitrary: ls)
  case Nil
  then show ?case by simp
next
  case (Cons x xs)
  from Cons.prems obtain v ls' where
    v: "linv (PropVar x) = Some v" and r: "soft_clauses c linv xs = Inr ls'" and
    l: "ls = soft_clause c v # ls'"
    by (auto split: option.splits sum.splits)
  from Cons.IH [OF r] obtain vs where
    "map (\<lambda>x. linv (PropVar x)) xs = map Some vs" "ls' = map (soft_clause c) vs" by blast
  with v l have "map (\<lambda>x. linv (PropVar x)) (x # xs) = map Some (v # vs) \<and>
      ls = map (soft_clause c) (v # vs)" by simp
  then show ?case by blast
qed

lemma soft_clauses_fails:
  "\<exists>x \<in> set xs. linv (PropVar x) = None \<Longrightarrow> soft_clauses c linv xs = Inl KeyError"
proof (induction xs)
  case Nil
  then show ?case by simp
next
  case (Cons x xs)
  show ?case
  proof (cases "linv (PropVar x)")
    case None
    then show ?thesis by simp
  next
    case (Some v)
    show ?thesis
    proof (cases "\<exists>x \<in> set xs. linv (PropVar x) = None")
      case True
      from Cons.IH [OF this] Some show ?thesis by simp
    next
      case False
      with Cons.prems Some show ?thesis by auto
    qed
  qed
qed

lemma soft_clauses_error: "soft_clauses c linv xs = Inl e \<Longrightarrow> e = KeyError"
  by (induction xs arbitrary: e) (auto split: option.splits sum.splits)

lemma split_at_nonempty: "split_at sep s \<noteq> []"
  by (induction s) (auto split: list.splits)

lemma cnflines_nonempty: "cnflines eng cls \<noteq> []"
  by (simp add: cnflines_def Let_def split_lines_def split_at_nonempty)

lemma read_header_Inr:
  "read_header first = Inr (nv, n) \<Longrightarrow>
   contains ''p cnf'' first \<and> (\<exists>t1 t2 nc. py_split first = [t1, t2, nv, nc] \<and> py_int nc = Some n)"
  by (auto simp: read_header_def unpack_header_def
      split: if_splits list.splits sum.splits option.splits)

lemma emit_Inr:
  assumes "emit eng as args cls = Inr fs"
  shows "\<exists>first rest nv n sa so.
     cnflines eng cls = first # rest \<and> read_header first = Inr (nv, n) \<and>
     soft_clauses (action_cost as) (var_labels_inverse (labels eng cls)) (actions as) = Inr sa \<and>
     soft_clauses order_cost (var_labels_inverse (labels eng cls)) (orders as) = Inr so \<and>
     fs = [(output_path args,
            join_lines (wcnf_header nv n as # map (weigh (top_cost as)) rest @ sa @ so)),
           (output_path args @ ''.map'', json_dumps (map_entries (labels eng cls)))]"
  using assms unfolding emit_def
  by (auto split: list.splits sum.splits prod.splits)

lemma emit_absent:
  assumes "x \<in> set (actions as @ orders as)"
    and "PropVar x \<notin> set (vars eng (compiled eng cls))"
  shows "\<exists>e. emit eng as args cls = Inl e \<and>
           (e = KeyError \<or> (\<exists>first rest. cnflines eng cls = first # rest \<and> read_header first = Inl e))"
proof -
  let ?linv = "var_labels_inverse (labels eng cls)"
  from assms(2) have n: "?linv (PropVar x) = None"
    using dom_var_labels_inverse [of "vars eng (compiled eng cls)"]
    by (auto simp: labels_def)
  obtain first rest where c: "cnflines eng cls = first # rest"
    using cnflines_nonempty [of eng cls] by (cases "cnflines eng cls") auto
  show ?thesis
  proof (cases "read_header first")
    case (Inl e)
    with c show ?thesis by (simp add: emit_def)
  next
    case (Inr h)
    obtain nv k where h: "h = (nv, k)" by (cases h)
    show ?thesis
    proof (cases "x \<in> set (actions as)")
      case True
      with n have "soft_clauses (action_cost as) ?linv (actions as) = Inl KeyError"
        by (intro soft_clauses_fails) blast
      with c Inr h show ?thesis by (simp add: emit_def)
    next
      case False
      with assms(1) n have o: "soft_clauses order_cost ?linv (orders as) = Inl KeyError"
        by (intro soft_clauses_fails) auto
      show ?thesis
      proof (cases "soft_clauses (action_cost as) ?linv (actions as)")
        case (Inl e)
        with soft_clauses_error [OF Inl] c Inr h show ?thesis by (simp add: emit_def)
      next
        case r: (Inr sa)
        with o c Inr h show ?thesis by (simp add: emit_def)
      qed
    qed
  qed
qed

lemma labels_keys:
  "map fst (labels eng cls) = [1..<Suc (length (vars eng (compiled eng cls)))]"
  "map snd (labels eng cls) = vars eng (compiled eng cls)"
  by (simp_all add: labels_def var_labels_def)

subsection \<open>The DIMACS text of the reference engine, read back\<close>

lemma digits_plain:
  "c \<in> set digits \<Longrightarrow>
   \<not> is_space c \<and> c \<noteq> newline \<and> c \<noteq> CHR ''_'' \<and> c \<noteq> CHR ''-'' \<and> c \<noteq> CHR ''+''"
  by (auto simp: digits_def is_space_def newline_def)

lemma digits_nth: "d < 10 \<Longrightarrow> digits ! d \<in> set digits"
  by (rule nth_mem) (simp add: digits_def)

lemma digit_of_nth: "d < 10 \<Longrightarrow> digit_of (digits ! d) = Some d"
proof -
  assume "d < 10"
  then have "d = 0 \<or> d = 1 \<or> d = 2 \<or> d = 3 \<or> d = 4 \<or> d = 5 \<or> d = 6 \<or> d = 7 \<or>
      d = 8 \<or> d = 9"
    by presburger
  then show ?thesis
    by (elim disjE) (simp_all add: digit_of_def digits_def upt_rec)
qed

lemma str_nat_digits: "set (str_nat n) \<subseteq> set digits"
proof (induction n rule: str_nat.induct)
  case (1 n)
  show ?case
  proof (cases "n < 10")
    case True
    then show ?thesis by (subst str_nat.simps) (simp add: digits_nth)
  next
    case False
    with 1 have "set (str_nat (n div 10)) \<subseteq> set digits" by simp
    moreover have "digits ! (n mod 10) \<in> set digits" by (simp add: digits_nth)
    ultimately show ?thesis using False by (subst str_nat.simps) simp
  qed
qed

lemma str_nat_nonempty: "str_nat n \<noteq> []"
  by (subst str_nat.simps) simp

lemma digits_val_append:
  "\<forall>c \<in> set xs. c \<in> set digits \<Longrightarrow>
   digits_val acc prev (xs @ ys) =
     digits_val (foldl (\<lambda>a c. 10 * a + the (digit_of c)) acc xs) (prev \<or> xs \<noteq> []) ys"
proof (induction xs arbitrary: acc prev)
  case Nil
  then show ?case by simp
next
  case (Cons x xs)
  from Cons.prems have x: "x \<in> set digits" by simp
  then obtain d where d: "digit_of x = Some d"
    by (auto simp: digit_of_def digits_def upt_rec)
  from x have u: "x \<noteq> CHR ''_''" by (simp add: digits_plain)
  from Cons.prems have "\<forall>c \<in> set xs. c \<in> set digits" by simp
  from Cons.IH [OF this, of "10 * acc + d" True] d u show ?case by simp
qed

lemma foldl_str_nat: "foldl (\<lambda>a c. 10 * a + the (digit_of c)) 0 (str_nat n) = n"
proof (induction n rule: str_nat.induct)
  case (1 n)
  show ?case
  proof (cases "n < 10")
    case True
    then show ?thesis by (subst str_nat.simps) (simp add: digit_of_nth)
  next
    case False
    with 1 have "foldl (\<lambda>a c. 10 * a + the (digit_of c)) 0 (str_nat (n div 10)) = n div 10"
      by simp
    then show ?thesis using False
      by (subst str_nat.simps) (simp add: digit_of_nth)
  qed
qed

lemma digits_val_str_nat: "digits_val 0 False (str_nat n) = Some n"
proof -
  have "\<forall>c \<in> set (str_nat n). c \<in> set digits" using str_nat_digits [of n] by blast
  from digits_val_append [OF this, of 0 False "[]"] show ?thesis
    by (simp add: foldl_str_nat str_nat_nonempty)
qed

lemma py_int_str_nat: "py_int (str_nat n) = Some (int n)"
proof -
  obtain c cs where s: "str_nat n = c # cs"
    using str_nat_nonempty [of n] by (cases "str_nat n") auto
  then have "c \<in> set digits" using str_nat_digits [of n] by auto
  then have "c \<noteq> CHR ''-''" "c \<noteq> CHR ''+''" by (simp_all add: digits_plain)
  then show ?thesis
    using digits_val_str_nat [of n] s by (simp add: py_int_def)
qed

lemma split_at_plain: "\<forall>c \<in> set w. \<not> sep c \<Longrightarrow> split_at sep w = [w]"
  by (induction w) auto

lemma split_at_sep:
  "\<forall>c \<in> set w. \<not> sep c \<Longrightarrow> sep c \<Longrightarrow> split_at sep (w @ c # rest) = w # split_at sep rest"
  by (induction w) (auto split: list.splits simp: split_at_nonempty)

lemma py_split_header:
  assumes "a \<noteq> []" "b \<noteq> []" "\<forall>c \<in> set a. \<not> is_space c" "\<forall>c \<in> set b. \<not> is_space c"
  shows "py_split (''p cnf '' @ a @ '' '' @ b) = [''p'', ''cnf'', a, b]"
proof -
  have sp: "is_space CHR '' ''" by (simp add: is_space_def)
  have p: "\<forall>c \<in> set ''p''. \<not> is_space c" "\<forall>c \<in> set ''cnf''. \<not> is_space c"
    by (simp_all add: is_space_def)
  have "''p cnf '' @ a @ '' '' @ b = ''p'' @ CHR '' '' # (''cnf'' @ CHR '' '' # (a @ CHR '' '' # b))"
    by simp
  then have "split_at is_space (''p cnf '' @ a @ '' '' @ b) = [''p'', ''cnf'', a, b]"
    by (simp only: split_at_sep [OF p(1) sp] split_at_sep [OF p(2) sp]
        split_at_sep [OF assms(3) sp] split_at_plain [OF assms(4)])
  with assms show ?thesis by (simp add: py_split_def)
qed

lemma read_header_dimacs:
  "read_header (''p cnf '' @ str_nat v @ '' '' @ str_nat c) = Inr (str_nat v, int c)"
proof -
  have "\<forall>x \<in> set (str_nat n). \<not> is_space x" for n
    using str_nat_digits [of n] digits_plain by blast
  then have "py_split (''p cnf '' @ str_nat v @ '' '' @ str_nat c) =
      [''p'', ''cnf'', str_nat v, str_nat c]"
    by (intro py_split_header) (simp_all add: str_nat_nonempty)
  then show ?thesis
    by (simp add: read_header_def unpack_header_def py_int_str_nat)
qed

lemma concat_lines:
  "ls \<noteq> [] \<Longrightarrow> concat (map (\<lambda>l. l @ [newline]) ls) = join_lines ls @ [newline]"
  by (induction ls rule: join_lines.induct) auto

lemma split_join_lines:
  "ls \<noteq> [] \<Longrightarrow> \<forall>l \<in> set ls. newline \<notin> set l \<Longrightarrow> split_lines (join_lines ls) = ls"
proof (induction ls rule: join_lines.induct)
  case 1
  then show ?case by simp
next
  case (2 l)
  then have "\<forall>c \<in> set l. \<not> (\<lambda>c. c = newline) c" by auto
  from split_at_plain [OF this] show ?case by (simp add: split_lines_def)
next
  case (3 l k ls)
  then have "split_lines (join_lines (k # ls)) = k # ls" by simp
  moreover have "split_at (\<lambda>c. c = newline) (l @ newline # join_lines (k # ls)) =
      l # split_at (\<lambda>c. c = newline) (join_lines (k # ls))"
    using 3 by (intro split_at_sep) auto
  ultimately show ?case by (simp add: split_lines_def)
qed

lemma py_strip_line:
  assumes "t \<noteq> []" "\<not> is_space (hd t)" "\<not> is_space (last t)"
  shows "py_strip (t @ [newline]) = t"
proof -
  obtain x t' where t: "t = x # t'" using assms(1) by (cases t) auto
  with assms(2) have a: "dropWhile is_space (t @ [newline]) = t @ [newline]" by simp
  have n: "is_space newline" by (simp add: is_space_def newline_def)
  have "rev t \<noteq> []" using assms(1) by simp
  then obtain y r where r: "rev t = y # r" by (cases "rev t") auto
  then have "y = last t" by (metis hd_rev list.sel(1))
  with assms(3) have "\<not> is_space y" by simp
  then have "dropWhile is_space (rev t) = rev t" unfolding r by simp
  with a n have "rev (dropWhile is_space (rev (dropWhile is_space (t @ [newline])))) = rev (rev t)"
    by simp
  then show ?thesis by (simp add: py_strip_def)
qed

lemma hd_join_lines: "l \<noteq> [] \<Longrightarrow> hd (join_lines (l # ls)) = hd l"
  by (cases ls) auto

lemma join_lines_last_nonempty: "ls \<noteq> [] \<Longrightarrow> last ls \<noteq> [] \<Longrightarrow> join_lines ls \<noteq> []"
  by (induction ls rule: join_lines.induct) auto

lemma last_join_lines:
  "ls \<noteq> [] \<Longrightarrow> last ls \<noteq> [] \<Longrightarrow> last (join_lines ls) = last (last ls)"
  by (induction ls rule: join_lines.induct) (auto simp: join_lines_last_nonempty)

lemma join_lines_nonempty: "l \<noteq> [] \<Longrightarrow> join_lines (l # ls) \<noteq> []"
  by (cases ls) auto

lemma literal_str_plain: "newline \<notin> set (literal_str linv l)"
  using str_nat_digits digits_plain
  by (auto simp: literal_str_def newline_def split: option.splits)

lemma clause_line_plain: "newline \<notin> set (clause_line linv d)"
  using literal_str_plain by (auto simp: clause_line_def newline_def)

lemma clause_line_last:
  "clause_line linv d \<noteq> [] \<and> \<not> is_space (last (clause_line linv d))"
  by (simp add: clause_line_def is_space_def)

lemma dimacs_lines:
  "split_lines (py_strip (dimacs_text c linv)) =
     (''p cnf '' @ str_nat (length (remdups (map fst (concat c)))) @ '' '' @
        str_nat (length c)) # map (clause_line linv) c"
proof -
  let ?h = "''p cnf '' @ str_nat (length (remdups (map fst (concat c)))) @ '' '' @
        str_nat (length c)"
  let ?ls = "?h # map (clause_line linv) c"
  let ?t = "join_lines ?ls"
  have d: "dimacs_text c linv = ?t @ [newline]"
    unfolding dimacs_text_def by (rule concat_lines) simp
  have hp: "newline \<notin> set (str_nat n)" for n
    using str_nat_digits digits_plain by blast
  have "newline \<notin> set ?h"
    using hp [of "length (remdups (map fst (concat c)))"] hp [of "length c"]
    by (simp add: newline_def)
  then have plain: "\<forall>l \<in> set ?ls. newline \<notin> set l"
    using clause_line_plain by auto
  have ne: "?t \<noteq> []" by (rule join_lines_nonempty) simp
  have h: "\<not> is_space (hd ?t)"
    by (subst hd_join_lines) (simp_all add: is_space_def)
  have "last ?ls \<noteq> [] \<and> \<not> is_space (last (last ?ls))"
  proof (cases c rule: rev_cases)
    case Nil
    have "last (str_nat 0) \<in> set digits"
      using str_nat_digits [of 0] str_nat_nonempty [of 0] last_in_set by blast
    then show ?thesis using Nil digits_plain by (simp add: str_nat_nonempty)
  next
    case (snoc ds d)
    then show ?thesis using clause_line_last [of linv d] by simp
  qed
  then have l: "\<not> is_space (last ?t)"
    by (subst last_join_lines) simp_all
  from py_strip_line [OF ne h l] d have "py_strip (dimacs_text c linv) = ?t" by simp
  then show ?thesis using split_join_lines [OF _ plain] by simp
qed

lemma cnflines_dimacs:
  assumes "dumps eng = dimacs_text"
  shows "cnflines eng cls =
     (''p cnf '' @ str_nat (length (remdups (map fst (concat (compiled eng cls))))) @ '' '' @
        str_nat (length (compiled eng cls))) #
     map (clause_line (var_labels_inverse (labels eng cls))) (compiled eng cls)"
  by (simp add: cnflines_def Let_def assms dimacs_lines)

lemma soft_clauses_succeeds:
  "\<forall>x \<in> set xs. linv (PropVar x) \<noteq> None \<Longrightarrow> \<exists>ls. soft_clauses c linv xs = Inr ls"
  by (induction xs) auto

lemma soft_clauses_Inl:
  assumes e: "soft_clauses c linv xs = Inl e"
  shows "\<exists>x \<in> set xs. linv (PropVar x) = None"
proof (rule ccontr)
  assume "\<not> (\<exists>x \<in> set xs. linv (PropVar x) = None)"
  then have "\<forall>x \<in> set xs. linv (PropVar x) \<noteq> None" by simp
  from soft_clauses_succeeds [OF this, of c] e show False by auto
qed

lemma emit_KeyError:
  assumes "emit eng as args cls = Inl KeyError"
    and "cnflines eng cls = first # rest" and "read_header first = Inr (nv, n)"
  shows "\<exists>x \<in> set (actions as @ orders as). PropVar x \<notin> set (vars eng (compiled eng cls))"
proof -
  let ?linv = "var_labels_inverse (labels eng cls)"
  have "\<exists>x \<in> set (actions as @ orders as). ?linv (PropVar x) = None"
  proof (cases "soft_clauses (action_cost as) ?linv (actions as)")
    case (Inl e)
    from soft_clauses_Inl [OF this] show ?thesis by auto
  next
    case sa: (Inr sa)
    show ?thesis
    proof (cases "soft_clauses order_cost ?linv (orders as)")
      case (Inl e)
      from soft_clauses_Inl [OF this] show ?thesis by auto
    next
      case (Inr so)
      with sa assms show ?thesis by (simp add: emit_def)
    qed
  qed
  then show ?thesis
    using dom_var_labels_inverse [of "vars eng (compiled eng cls)"]
    by (auto simp: labels_def)
qed

lemma py_split_dimacs:
  "py_split (''p cnf '' @ str_nat v @ '' '' @ str_nat c) = [''p'', ''cnf'', str_nat v, str_nat c]"
proof -
  have "\<forall>x \<in> set (str_nat n). \<not> is_space x" for n
    using str_nat_digits [of n] digits_plain by blast
  then show ?thesis
    by (intro py_split_header) (simp_all add: str_nat_nonempty)
qed

lemma dimacs_header_count:
  assumes "dumps eng = dimacs_text" and "cnflines eng cls = first # rest"
    and "py_split first = [t1, t2, nv, nc]" and "py_int nc = Some n"
  shows "n = int (length (compiled eng cls)) \<and>
         rest = map (clause_line (var_labels_inverse (labels eng cls))) (compiled eng cls)"
proof -
  from cnflines_dimacs [OF assms(1), of cls] assms(2) have
    f: "first = ''p cnf '' @ str_nat (length (remdups (map fst (concat (compiled eng cls))))) @
          '' '' @ str_nat (length (compiled eng cls))" and
    r: "rest = map (clause_line (var_labels_inverse (labels eng cls))) (compiled eng cls)"
    by simp_all
  from assms(3) have "nc = str_nat (length (compiled eng cls))"
    unfolding f py_split_dimacs by simp
  with assms(4) have "n = int (length (compiled eng cls))"
    by (simp add: py_int_str_nat)
  with r show ?thesis by simp
qed

subsection \<open>Two runs on the plan of the scenario\<close>

lemma small_run:
  "snd (encode_POP reference_engine small_pop no_options) =
     Inr [(''out.wcnf'',
           join_lines
            [''p wcnf 7 30 15'', ''15 -1 0'', ''15 -3 0'', ''15 -1 -1 1 0'',
             ''15 -1 -7 7 0'', ''15 -7 -2 1 0'', ''15 -7 -3 7 0'', ''15 -2 -1 2 0'',
             ''15 -2 -7 3 0'', ''15 -3 -2 2 0'', ''15 -3 -3 3 0'', ''15 -1 4 0'',
             ''15 -1 4 0'', ''15 -7 4 0'', ''15 -7 5 0'', ''15 -2 5 0'',
             ''15 -2 4 0'', ''15 -3 5 0'', ''15 -3 5 0'', ''15 -4 7 0'',
             ''15 -5 7 0'', ''15 4 0'', ''15 5 0'', ''15 -5 6 0'', ''15 -6 7 0'',
             ''5 -4 0'', ''5 -5 0'', ''1 -1 0'', ''1 -7 0'', ''1 -2 0'', ''1 -3 0'']),
          (''out.wcnf.map'',
           json_dumps
            [(1, ''init -> init''), (2, ''goal -> init''), (3, ''goal -> goal''),
             (4, ''init in plan''), (5, ''goal in plan''),
             (6, ''init supports p for goal''), (7, ''init -> goal'')])]"
  by code_simp

lemma simplified_run:
  "snd (encode_POP simplifying_engine small_pop no_options) = Inl KeyError"
  by code_simp

lemma small_pop_generates:
  "\<exists>ad de. snd (generate small_pop args) =
     Inr (ad, de, clauses (transativly_close small_pop) args ad de)"
  by (rule generate_succeeds)
     (simp_all add: effects_in_F_def small_pop_def a_init_def a_goal_def)

subsection \<open>The WCNF file\<close>

text \<open>
  Claim C4. When \<^verbatim>\<open>encode_POP\<close> writes its files, the first line of the DIMACS text has
  four tokens, the last two being \<^verbatim>\<open>nv\<close> and the clause count \<^verbatim>\<open>nc\<close>, and the WCNF file
  is: the header \<^verbatim>\<open>p wcnf nv (nc + |actions| + |orders|) top_cost\<close>; every further
  non-empty line of the DIMACS text prefixed with \<^verbatim>\<open>top_cost\<close>; then one line
  \<^verbatim>\<open>action_cost -v 0\<close> per Action proposition and one line \<^verbatim>\<open>order_cost -v 0\<close> per
  Order proposition, in the order of the lists, where \<open>v\<close> is the number at which the
  compiled CNF lists that very proposition. No Support proposition is among them.
  For an engine that writes DIMACS text as the reference engine does, \<^verbatim>\<open>nc\<close> is the
  number of compiled clauses and the further lines are the compiled clauses.
\<close>

theorem wcnf_contents:
  assumes "snd (encode_POP eng p args) = Inr fs"
  shows "\<exists>adders deleters cls first rest t1 t2 nv nc n va vo.
     snd (generate p args) = Inr (adders, deleters, cls) \<and>
     cnflines eng cls = first # rest \<and>
     py_split first = [t1, t2, nv, nc] \<and> py_int nc = Some n \<and>
     wcnf_file (encode_POP eng p args) =
       Some (join_lines
         ((''p wcnf '' @ nv @ '' '' @
             str_int (n + int (length (actions (pop_A p))) + int (length (orders (pop_A p)))) @
             '' '' @ str_int (top_cost (pop_A p))) #
          map (\<lambda>l. if l \<noteq> [] then str_int (top_cost (pop_A p)) @ '' '' @ l else l) rest @
          map (\<lambda>v. str_int (action_cost (pop_A p)) @ '' -'' @ str_nat v @ '' 0'') va @
          map (\<lambda>v. str_int order_cost @ '' -'' @ str_nat v @ '' 0'') vo)) \<and>
     length va = length (pop_A p) \<and> length vo = (length (pop_A p))\<^sup>2 \<and>
     (\<forall>i < length va. 1 \<le> va ! i \<and>
        vars eng (compiled eng cls) ! (va ! i - 1) = PropVar (actions (pop_A p) ! i)) \<and>
     (\<forall>i < length vo. 1 \<le> vo ! i \<and>
        vars eng (compiled eng cls) ! (vo ! i - 1) = PropVar (orders (pop_A p) ! i)) \<and>
     (\<forall>x \<in> set (actions (pop_A p) @ orders (pop_A p)). \<forall>a1 q a2. x \<noteq> Support a1 q a2) \<and>
     (dumps eng = dimacs_text \<longrightarrow>
        n = int (length (compiled eng cls)) \<and>
        rest = map (clause_line (var_labels_inverse (labels eng cls))) (compiled eng cls))"
proof -
  let ?A = "pop_A p"
  from assms obtain adders deleters cls where
    g: "snd (generate p args) = Inr (adders, deleters, cls)" and
    e: "emit eng ?A args cls = Inr fs"
    by (auto simp: encode_POP_snd split: sum.splits)
  let ?linv = "var_labels_inverse (labels eng cls)"
  let ?vs = "vars eng (compiled eng cls)"
  from emit_Inr [OF e] obtain first rest nv n sa so where
    c: "cnflines eng cls = first # rest" and h: "read_header first = Inr (nv, n)" and
    sa: "soft_clauses (action_cost ?A) ?linv (actions ?A) = Inr sa" and
    so: "soft_clauses order_cost ?linv (orders ?A) = Inr so" and
    fs: "fs = [(output_path args,
            join_lines (wcnf_header nv n ?A # map (weigh (top_cost ?A)) rest @ sa @ so)),
           (output_path args @ ''.map'', json_dumps (map_entries (labels eng cls)))]"
    by blast
  from read_header_Inr [OF h] obtain t1 t2 nc where
    t: "py_split first = [t1, t2, nv, nc]" and nc: "py_int nc = Some n" by blast
  from soft_clauses_Inr [OF sa] obtain va where
    va: "map (\<lambda>x. ?linv (PropVar x)) (actions ?A) = map Some va" and
    sa': "sa = map (soft_clause (action_cost ?A)) va" by blast
  from soft_clauses_Inr [OF so] obtain vo where
    vo: "map (\<lambda>x. ?linv (PropVar x)) (orders ?A) = map Some vo" and
    so': "so = map (soft_clause order_cost) vo" by blast
  from va have lva: "length va = length (actions ?A)" by (metis length_map)
  from vo have lvo: "length vo = length (orders ?A)" by (metis length_map)
  have ia: "1 \<le> va ! i \<and> ?vs ! (va ! i - 1) = PropVar (actions ?A ! i)" if "i < length va" for i
  proof -
    from va that lva have "?linv (PropVar (actions ?A ! i)) = Some (va ! i)"
      by (metis nth_map)
    from var_labels_inverse_Some [OF this [unfolded labels_def]] show ?thesis by simp
  qed
  have io: "1 \<le> vo ! i \<and> ?vs ! (vo ! i - 1) = PropVar (orders ?A ! i)" if "i < length vo" for i
  proof -
    from vo that lvo have "?linv (PropVar (orders ?A ! i)) = Some (vo ! i)"
      by (metis nth_map)
    from var_labels_inverse_Some [OF this [unfolded labels_def]] show ?thesis by simp
  qed
  have w: "wcnf_file (encode_POP eng p args) =
       Some (join_lines
         ((''p wcnf '' @ nv @ '' '' @
             str_int (n + int (length (actions ?A)) + int (length (orders ?A))) @
             '' '' @ str_int (top_cost ?A)) #
          map (\<lambda>l. if l \<noteq> [] then str_int (top_cost ?A) @ '' '' @ l else l) rest @
          map (\<lambda>v. str_int (action_cost ?A) @ '' -'' @ str_nat v @ '' 0'') va @
          map (\<lambda>v. str_int order_cost @ '' -'' @ str_nat v @ '' 0'') vo))"
  proof -
    have "weigh (top_cost ?A) =
        (\<lambda>l. if l \<noteq> [] then str_int (top_cost ?A) @ '' '' @ l else l)"
      by (rule ext) (simp add: weigh_def)
    moreover have "soft_clause c = (\<lambda>v. str_int c @ '' -'' @ str_nat v @ '' 0'')" for c
      by (rule ext) (simp add: soft_clause_def)
    ultimately show ?thesis
      using assms unfolding fs sa' so'
      by (simp add: wcnf_file_def wcnf_header_def)
  qed
  have ns: "\<forall>x \<in> set (actions ?A @ orders ?A). \<forall>a1 q a2. x \<noteq> Support a1 q a2"
    by (auto simp: actions_def orders_def)
  have dm: "dumps eng = dimacs_text \<longrightarrow>
        n = int (length (compiled eng cls)) \<and>
        rest = map (clause_line (var_labels_inverse (labels eng cls))) (compiled eng cls)"
    using dimacs_header_count [OF _ c t nc] by blast
  from g c t nc w lva lvo ia io ns dm show ?thesis
    unfolding length_actions length_orders power2_eq_square by blast
qed

text \<open>The WCNF file of the scenario: 24 hard clauses, two actions, four orders.\<close>

theorem wcnf_contents_witness:
  "wcnf_file (encode_POP reference_engine small_pop no_options) =
     Some (join_lines
            [''p wcnf 7 30 15'', ''15 -1 0'', ''15 -3 0'', ''15 -1 -1 1 0'',
             ''15 -1 -7 7 0'', ''15 -7 -2 1 0'', ''15 -7 -3 7 0'', ''15 -2 -1 2 0'',
             ''15 -2 -7 3 0'', ''15 -3 -2 2 0'', ''15 -3 -3 3 0'', ''15 -1 4 0'',
             ''15 -1 4 0'', ''15 -7 4 0'', ''15 -7 5 0'', ''15 -2 5 0'',
             ''15 -2 4 0'', ''15 -3 5 0'', ''15 -3 5 0'', ''15 -4 7 0'',
             ''15 -5 7 0'', ''15 4 0'', ''15 5 0'', ''15 -5 6 0'', ''15 -6 7 0'',
             ''5 -4 0'', ''5 -5 0'', ''1 -1 0'', ''1 -7 0'', ''1 -2 0'', ''1 -3 0'']) \<and>
   (\<exists>nv n rest va vo.
      wcnf_file (encode_POP reference_engine small_pop no_options) =
        Some (join_lines
          ((''p wcnf '' @ nv @ '' '' @ str_int (n + 2 + 4) @ '' '' @ str_int 15) #
           map (\<lambda>l. if l \<noteq> [] then str_int 15 @ '' '' @ l else l) rest @
           map (\<lambda>v. str_int 5 @ '' -'' @ str_nat v @ '' 0'') va @
           map (\<lambda>v. str_int 1 @ '' -'' @ str_nat v @ '' 0'') vo)) \<and>
      length va = 2 \<and> length vo = 4)"
proof -
  have c: "length (pop_A small_pop) = 2" "top_cost (pop_A small_pop) = 15"
    "action_cost (pop_A small_pop) = 5" "order_cost = 1"
    "length (actions (pop_A small_pop)) = 2" "length (orders (pop_A small_pop)) = 4"
    by (simp_all add: small_pop_def top_cost_def action_cost_def order_cost_def
        length_actions length_orders)
  have "wcnf_file (encode_POP reference_engine small_pop no_options) =
     Some (join_lines
            [''p wcnf 7 30 15'', ''15 -1 0'', ''15 -3 0'', ''15 -1 -1 1 0'',
             ''15 -1 -7 7 0'', ''15 -7 -2 1 0'', ''15 -7 -3 7 0'', ''15 -2 -1 2 0'',
             ''15 -2 -7 3 0'', ''15 -3 -2 2 0'', ''15 -3 -3 3 0'', ''15 -1 4 0'',
             ''15 -1 4 0'', ''15 -7 4 0'', ''15 -7 5 0'', ''15 -2 5 0'',
             ''15 -2 4 0'', ''15 -3 5 0'', ''15 -3 5 0'', ''15 -4 7 0'',
             ''15 -5 7 0'', ''15 4 0'', ''15 5 0'', ''15 -5 6 0'', ''15 -6 7 0'',
             ''5 -4 0'', ''5 -5 0'', ''1 -1 0'', ''1 -7 0'', ''1 -2 0'', ''1 -3 0''])"
    unfolding wcnf_file_def small_run by simp
  moreover from wcnf_contents [OF small_run] have
    "\<exists>nv n rest va vo.
      wcnf_file (encode_POP reference_engine small_pop no_options) =
        Some (join_lines
          ((''p wcnf '' @ nv @ '' '' @ str_int (n + 2 + 4) @ '' '' @ str_int 15) #
           map (\<lambda>l. if l \<noteq> [] then str_int 15 @ '' '' @ l else l) rest @
           map (\<lambda>v. str_int 5 @ '' -'' @ str_nat v @ '' 0'') va @
           map (\<lambda>v. str_int 1 @ '' -'' @ str_nat v @ '' 0'') vo)) \<and>
      length va = 2 \<and> length vo = 4"
    unfolding c by (elim exE conjE) (simp, blast)
  ultimately show ?thesis by blast
qed

subsection \<open>Missing variables\<close>

text \<open>
  Claim C9. After the clauses have been generated: if some Action or Order
  proposition is not a variable of the compiled CNF, \<^verbatim>\<open>encode_POP\<close> fails and writes no
  file; the error is \<^verbatim>\<open>KeyError\<close> whenever the header of the DIMACS text passes lines
  176 to 178. So a run that writes its files has every one of the \<open>|A|\<close> Action and
  \<open>|A|\<^sup>2\<close> Order propositions among the variables. For an engine that writes DIMACS
  text as the reference engine does, the run fails with \<^verbatim>\<open>KeyError\<close> exactly when such
  a proposition is missing.
\<close>

theorem missing_variable:
  assumes "snd (generate p args) = Inr (adders, deleters, cls)"
  shows
    "((\<exists>x \<in> set (actions (pop_A p) @ orders (pop_A p)).
         PropVar x \<notin> set (vars eng (compiled eng cls))) \<longrightarrow>
        (\<exists>e. snd (encode_POP eng p args) = Inl e) \<and>
        (\<forall>first rest nv n.
           cnflines eng cls = first # rest \<and> read_header first = Inr (nv, n) \<longrightarrow>
           snd (encode_POP eng p args) = Inl KeyError)) \<and>
     ((\<exists>fs. snd (encode_POP eng p args) = Inr fs) \<longrightarrow>
        (\<forall>x \<in> set (actions (pop_A p) @ orders (pop_A p)).
           PropVar x \<in> set (vars eng (compiled eng cls))) \<and>
        length (actions (pop_A p)) = length (pop_A p) \<and>
        length (orders (pop_A p)) = (length (pop_A p))\<^sup>2) \<and>
     (dumps eng = dimacs_text \<longrightarrow>
        (snd (encode_POP eng p args) = Inl KeyError \<longleftrightarrow>
         (\<exists>x \<in> set (actions (pop_A p) @ orders (pop_A p)).
            PropVar x \<notin> set (vars eng (compiled eng cls)))))"
proof -
  let ?A = "pop_A p"
  let ?absent = "\<exists>x \<in> set (actions ?A @ orders ?A). PropVar x \<notin> set (vars eng (compiled eng cls))"
  have enc: "snd (encode_POP eng p args) = emit eng ?A args cls"
    using assms by (simp add: encode_POP_snd)
  have one: "(\<exists>e. snd (encode_POP eng p args) = Inl e) \<and>
        (\<forall>first rest nv n.
           cnflines eng cls = first # rest \<and> read_header first = Inr (nv, n) \<longrightarrow>
           snd (encode_POP eng p args) = Inl KeyError)" if ?absent
  proof -
    from that obtain x where "x \<in> set (actions ?A @ orders ?A)"
      "PropVar x \<notin> set (vars eng (compiled eng cls))" by blast
    from emit_absent [OF this, of args] obtain e where
      e: "emit eng ?A args cls = Inl e" and
      k: "e = KeyError \<or> (\<exists>first rest. cnflines eng cls = first # rest \<and> read_header first = Inl e)"
      by blast
    from k have "emit eng ?A args cls = Inl KeyError"
      if "cnflines eng cls = first # rest" "read_header first = Inr (nv, n)" for first rest nv n
      using that e by auto
    with e show ?thesis unfolding enc by blast
  qed
  have two: "\<not> ?absent" if s: "\<exists>fs. snd (encode_POP eng p args) = Inr fs"
  proof
    assume ?absent
    from one [OF this] obtain e where "snd (encode_POP eng p args) = Inl e" by blast
    with s show False by auto
  qed
  have three: "snd (encode_POP eng p args) = Inl KeyError \<longleftrightarrow> ?absent"
    if d: "dumps eng = dimacs_text"
  proof
    assume "snd (encode_POP eng p args) = Inl KeyError"
    then have "emit eng ?A args cls = Inl KeyError" unfolding enc .
    from emit_KeyError [OF this cnflines_dimacs [OF d] read_header_dimacs] show ?absent .
  next
    assume ?absent
    from one [OF this] cnflines_dimacs [OF d, of cls] read_header_dimacs
    show "snd (encode_POP eng p args) = Inl KeyError" by blast
  qed
  from one two three show ?thesis
    unfolding length_actions length_orders power2_eq_square by blast
qed

text \<open>
  The simplifying engine eliminates the unit \<open>Action(init)\<close> and the run fails; the
  reference engine keeps every proposition and the run succeeds.
\<close>

theorem missing_variable_witness:
  "\<exists>adders deleters cls.
     snd (generate small_pop no_options) = Inr (adders, deleters, cls) \<and>
     (\<exists>x \<in> set (actions (pop_A small_pop) @ orders (pop_A small_pop)).
        PropVar x \<notin> set (vars simplifying_engine (compiled simplifying_engine cls))) \<and>
     snd (encode_POP simplifying_engine small_pop no_options) = Inl KeyError \<and>
     (\<exists>fs. snd (encode_POP reference_engine small_pop no_options) = Inr fs) \<and>
     (\<forall>x \<in> set (actions (pop_A small_pop) @ orders (pop_A small_pop)).
        PropVar x \<in> set (vars reference_engine (compiled reference_engine cls)))"
proof -
  from small_pop_generates [of no_options] obtain ad de cls where
    g: "snd (generate small_pop no_options) = Inr (ad, de, cls)" by blast
  have d: "dumps simplifying_engine = dimacs_text"
    by (simp add: simplifying_engine_def)
  from missing_variable [OF g, of simplifying_engine] d simplified_run
  have a: "\<exists>x \<in> set (actions (pop_A small_pop) @ orders (pop_A small_pop)).
        PropVar x \<notin> set (vars simplifying_engine (compiled simplifying_engine cls))"
    by blast
  have s: "\<exists>fs. snd (encode_POP reference_engine small_pop no_options) = Inr fs"
    using small_run by blast
  from missing_variable [OF g, of reference_engine] s
  have "\<forall>x \<in> set (actions (pop_A small_pop) @ orders (pop_A small_pop)).
        PropVar x \<in> set (vars reference_engine (compiled reference_engine cls))"
    by blast
  with g a s simplified_run show ?thesis by blast
qed

subsection \<open>The map file\<close>

text \<open>
  Claim C8, as amended. The map file is \<^verbatim>\<open>json.dumps(..., indent=4)\<close> of the dictionary
  that maps each variable number, from 1 in the order of \<^verbatim>\<open>cnf.vars()\<close>, to \<^verbatim>\<open>str\<close> of
  the variable: \<^verbatim>\<open><a> in plan\<close> for an Action proposition, \<^verbatim>\<open><a1> -> <a2>\<close> for an
  Order proposition and \<^verbatim>\<open><a1> supports <p> for <a2>\<close> for a Support proposition. The
  JSON text of a non-empty dictionary is an opening brace, one line per entry
  indented by four blanks with key and value as JSON strings, and a closing brace.
\<close>

theorem map_contents:
  assumes "snd (encode_POP eng p args) = Inr fs"
  shows "\<exists>adders deleters cls.
     snd (generate p args) = Inr (adders, deleters, cls) \<and>
     map_file (encode_POP eng p args) =
       Some (json_dumps [(k, cvar_str v). (k, v) \<leftarrow> labels eng cls]) \<and>
     map fst (labels eng cls) = [1..<Suc (length (vars eng (compiled eng cls)))] \<and>
     map snd (labels eng cls) = vars eng (compiled eng cls) \<and>
     (\<forall>a. cvar_str (PropVar (Action a)) = name a @ '' in plan'') \<and>
     (\<forall>a1 a2. cvar_str (PropVar (Order a1 a2)) = name a1 @ '' -> '' @ name a2) \<and>
     (\<forall>a1 q a2. cvar_str (PropVar (Support a1 q a2)) =
        name a1 @ '' supports '' @ q @ '' for '' @ name a2) \<and>
     (\<forall>d ds. json_dumps (d # ds) =
        ''{'' @ [newline] @
        join_items (map (\<lambda>kv. ''    '' @ json_string (str_nat (fst kv)) @ '': '' @
                                json_string (snd kv)) (d # ds)) @
        [newline] @ ''}'')"
proof -
  from assms obtain adders deleters cls where
    g: "snd (generate p args) = Inr (adders, deleters, cls)" and
    e: "emit eng (pop_A p) args cls = Inr fs"
    by (auto simp: encode_POP_snd split: sum.splits)
  from emit_Inr [OF e] obtain w where
    "fs = [(output_path args, w),
           (output_path args @ ''.map'', json_dumps (map_entries (labels eng cls)))]"
    by blast
  with assms have m: "map_file (encode_POP eng p args) =
       Some (json_dumps [(k, cvar_str v). (k, v) \<leftarrow> labels eng cls])"
    by (simp add: map_file_def map_entries_def)
  have j: "json_item = (\<lambda>kv. ''    '' @ json_string (str_nat (fst kv)) @ '': '' @
                                json_string (snd kv))"
    by (rule ext) (simp add: json_item_def)
  have "json_dumps (d # ds) =
        ''{'' @ [newline] @
        join_items (map (\<lambda>kv. ''    '' @ json_string (str_nat (fst kv)) @ '': '' @
                                json_string (snd kv)) (d # ds)) @
        [newline] @ ''}''" for d ds
    unfolding json_dumps_def j by simp
  with g m show ?thesis
    by (simp add: labels_keys)
qed

text \<open>The map file of the scenario.\<close>

theorem map_contents_witness:
  "map_file (encode_POP reference_engine small_pop no_options) =
     Some (json_dumps
            [(1, ''init -> init''), (2, ''goal -> init''), (3, ''goal -> goal''),
             (4, ''init in plan''), (5, ''goal in plan''),
             (6, ''init supports p for goal''), (7, ''init -> goal'')]) \<and>
   (\<exists>adders deleters cls.
      snd (generate small_pop no_options) = Inr (adders, deleters, cls) \<and>
      map_file (encode_POP reference_engine small_pop no_options) =
        Some (json_dumps [(k, cvar_str v). (k, v) \<leftarrow> labels reference_engine cls]))"
proof -
  have "map_file (encode_POP reference_engine small_pop no_options) =
     Some (json_dumps
            [(1, ''init -> init''), (2, ''goal -> init''), (3, ''goal -> goal''),
             (4, ''init in plan''), (5, ''goal in plan''),
             (6, ''init supports p for goal''), (7, ''init -> goal'')])"
    unfolding map_file_def small_run by simp
  with map_contents [OF small_run] show ?thesis by blast
qed

text \<open>
  Claim C8 as stated fails: the map file of the scenario describes its variables by
  \<^verbatim>\<open>__str__\<close>, not in the forms \<^verbatim>\<open>Action(a)\<close>, \<^verbatim>\<open>Order(a1,a2)\<close>, \<^verbatim>\<open>Support(a1,p,a2)\<close>,
  and not by \<^verbatim>\<open>__repr__\<close> either.
\<close>

theorem map_descriptions_are_str:
  "map_file (encode_POP reference_engine small_pop no_options) =
     Some (json_dumps
            [(1, ''init -> init''), (2, ''goal -> init''), (3, ''goal -> goal''),
             (4, ''init in plan''), (5, ''goal in plan''),
             (6, ''init supports p for goal''), (7, ''init -> goal'')]) \<and>
   map_file (encode_POP reference_engine small_pop no_options) \<noteq>
     Some (json_dumps
            [(1, ''Order(init,init)''), (2, ''Order(goal,init)''), (3, ''Order(goal,goal)''),
             (4, ''Action(init)''), (5, ''Action(goal)''),
             (6, ''Support(init,p,goal)''), (7, ''Order(init,goal)'')]) \<and>
   map_file (encode_POP reference_engine small_pop no_options) \<noteq>
     Some (json_dumps
            [(1, propn_repr (Order a_init a_init)), (2, propn_repr (Order a_goal a_init)),
             (3, propn_repr (Order a_goal a_goal)), (4, propn_repr (Action a_init)),
             (5, propn_repr (Action a_goal)), (6, propn_repr (Support a_init ''p'' a_goal)),
             (7, propn_repr (Order a_init a_goal))])"
  by code_simp

section \<open>The reference engine keeps the meaning\<close>

lemma cnf_true_append: "cnf_true v (xs @ ys) = (cnf_true v xs \<and> cnf_true v ys)"
  by (simp add: cnf_true_def)

lemma cnf_true_cross: "cnf_true v (cross xs ys) = (cnf_true v xs \<or> cnf_true v ys)"
proof -
  have "cnf_true v (cross xs ys) =
      (\<forall>x \<in> set xs. \<forall>y \<in> set ys. \<exists>l \<in> set x \<union> set y. literal_true v l)"
    by (auto simp: cnf_true_def cross_def list_all_iff list_ex_iff)
  also have "\<dots> = ((\<forall>x \<in> set xs. \<exists>l \<in> set x. literal_true v l) \<or>
      (\<forall>y \<in> set ys. \<exists>l \<in> set y. literal_true v l))"
    by blast
  also have "\<dots> = (cnf_true v xs \<or> cnf_true v ys)"
    by (simp add: cnf_true_def list_all_iff list_ex_iff)
  finally show ?thesis .
qed

lemma cnf_true_empty_clause: "\<not> cnf_true v [[]]"
  by (simp add: cnf_true_def)

lemma cnf_true_concat: "cnf_true v (concat xss) = (\<forall>xs \<in> set xss. cnf_true v xs)"
  by (auto simp: cnf_true_def list_all_iff)

lemma cnf_true_foldr: "cnf_true v (foldr cross xss [[]]) = (\<exists>xs \<in> set xss. cnf_true v xs)"
  by (induction xss) (simp_all add: cnf_true_cross cnf_true_empty_clause)

lemma cnf_of_sound: "cnf_true v (cnf_of b f) = (holds v f = b)"
proof (induction b f rule: cnf_of.induct)
  case (1 b x)
  then show ?case by (auto simp: cnf_true_def)
next
  case (2 b f)
  then show ?case by auto
next
  case (3 b f g)
  then show ?case by (cases b) (auto simp: cnf_true_append cnf_true_cross)
next
  case (4 b f g)
  then show ?case by (cases b) (auto simp: cnf_true_append cnf_true_cross)
next
  case (5 b f g)
  then show ?case by (cases b) (auto simp: cnf_true_append cnf_true_cross)
next
  case (6 b fs)
  then show ?case
    by (cases b) (auto simp: cnf_true_concat cnf_true_foldr list_ex_iff)
next
  case (7 b fs)
  then show ?case
    by (cases b) (auto simp: cnf_true_concat cnf_true_foldr list_all_iff)
qed

end
